theory Spec2Isabelle
  imports Main "HOL-Library.Sublist"
begin

section \<open>The operating system as the tunnel manager sees it\<close>

text \<open>
  \<^verbatim>\<open>executable_tunnel-manager.py\<close> supervises \<^verbatim>\<open>cloudflared\<close> processes through
  the file system (one pid file and one log file per tunnel under \<^verbatim>\<open>/tmp\<close>), through
  signals (\<^verbatim>\<open>os.kill\<close>), through \<^verbatim>\<open>subprocess\<close> (\<^verbatim>\<open>ps\<close>, \<^verbatim>\<open>pgrep\<close>, \<^verbatim>\<open>tail\<close>,
  \<^verbatim>\<open>Popen\<close>) and through \<^verbatim>\<open>time.sleep\<close>. The model threads an explicit world through
  every method: the files, the process table, a trace of every system call made, and the
  lines printed.

  Modelling decisions about the environment (none of them is code of the repository):
  \<^item> a \<open>char\<close> is a code point below 256; text files hold such characters;
  \<^item> \<open>files\<close> maps the path of every existing regular file to its text; opening,
    writing and unlinking never fail for lack of permission;
  \<^item> \<open>procs\<close> lists the live processes in the order \<^verbatim>\<open>pgrep\<close> enumerates them; their
    pids are positive, and process groups (\<^verbatim>\<open>kill\<close> with a pid \<open>\<le> 0\<close>) are not
    represented;
  \<^item> time passes only in \<^verbatim>\<open>time.sleep\<close>: a process with \<open>ttl = Some t\<close> is gone once \<open>t\<close>
    time units have been slept; \<open>term_delay\<close> says how long a process takes to exit after
    \<^verbatim>\<open>SIGTERM\<close> (\<open>None\<close>: it ignores the signal, \<open>Some 0\<close>: it is gone before the
    next system call); \<^verbatim>\<open>SIGKILL\<close> removes it at once;
  \<^item> \<open>owned\<close> says whether the caller may signal the process (otherwise \<^verbatim>\<open>EPERM\<close>);
  \<^item> \<open>ere_search\<close> is the regular-expression search of \<^verbatim>\<open>pgrep -f\<close> (pattern, command
    line), and \<open>launch\<close> is what the system does with a \<^verbatim>\<open>Popen\<close> of an argument vector:
    \<open>None\<close> when the program cannot be executed, otherwise the new pid and the fate of
    the new process.
\<close>

datatype signal = SIG0 | SIGTERM | SIGKILL

datatype exn = OverflowError | ProcessLookupError | PermissionError | FileNotFoundError | TypeError

record proc =
  comm :: string
  args :: string
  owned :: bool
  ttl :: "nat option"
  term_delay :: "nat option"

datatype event =
    EvKill int signal "exn option"
  | EvSleep nat
  | EvRun "string list"
  | EvPopen "string list" string bool bool
  | EvWrite string string
  | EvUnlink string

datatype msg =
    MsgAlreadyRunning string "int option"
  | MsgNoConfig string string
  | MsgStarted string int string
  | MsgStartFailed string string
  | MsgErrorStarting exn
  | MsgNotRunning string
  | MsgStopped string "int option"
  | MsgStoppedGone string
  | MsgErrorStopping exn
  | MsgRestarting string
  | MsgNoLogFile string
  | MsgTailOutput "string list"

record world =
  files :: "string \<rightharpoonup> string"
  procs :: "(int \<times> proc) list"
  home :: string
  ere_search :: "string \<Rightarrow> string \<Rightarrow> bool"
  launch :: "string list \<Rightarrow> (int \<times> nat option \<times> nat option) option"
  trace :: "event list"
  out :: "msg list"

definition log_event :: "event \<Rightarrow> world \<Rightarrow> world" where
  "log_event e w = w\<lparr>trace := trace w @ [e]\<rparr>"

definition say :: "msg \<Rightarrow> world \<Rightarrow> world" where
  "say m w = w\<lparr>out := out w @ [m]\<rparr>"

definition alive :: "world \<Rightarrow> int \<Rightarrow> bool" where
  "alive w pid = (map_of (procs w) pid \<noteq> None)"

subsection \<open>Files\<close>

definition path_exists :: "world \<Rightarrow> string \<Rightarrow> bool" where
  \<comment> \<open>\<^verbatim>\<open>Path(p).exists()\<close>; \<^verbatim>\<open>Path('')\<close> is the current directory, which exists.\<close>
  "path_exists w p = (p = [] \<or> files w p \<noteq> None)"

definition write_file :: "string \<Rightarrow> string \<Rightarrow> world \<Rightarrow> world" where
  \<comment> \<open>\<^verbatim>\<open>open(p, 'w')\<close> truncates or creates; the text written replaces the content.\<close>
  "write_file p s w = log_event (EvWrite p s) (w\<lparr>files := (files w)(p \<mapsto> s)\<rparr>)"

definition unlink :: "string \<Rightarrow> world \<Rightarrow> world" where
  "unlink p w = log_event (EvUnlink p) (w\<lparr>files := (files w)(p := None)\<rparr>)"

definition unlink_if_exists :: "string \<Rightarrow> world \<Rightarrow> world" where
  \<comment> \<open>\<^verbatim>\<open>if pid_file.exists(): pid_file.unlink()\<close>\<close>
  "unlink_if_exists p w = (if files w p \<noteq> None then unlink p w else w)"

definition path_join :: "string \<Rightarrow> string \<Rightarrow> string" where
  \<comment> \<open>\<^verbatim>\<open>base / rel\<close> of pathlib: an absolute right operand replaces the base.\<close>
  "path_join base rel = (if rel \<noteq> [] \<and> hd rel = CHR ''/'' then rel else base @ ''/'' @ rel)"

subsection \<open>Processes, signals and time\<close>

definition pid_in_range :: "int \<Rightarrow> bool" where
  \<comment> \<open>\<^verbatim>\<open>pid_t\<close> is a C \<^verbatim>\<open>int\<close>; \<^verbatim>\<open>os.kill\<close> raises OverflowError outside it.\<close>
  "pid_in_range p = (- (2 ^ 31) \<le> p \<and> p < 2 ^ 31)"

definition on_signal :: "signal \<Rightarrow> proc \<Rightarrow> proc option" where
  \<comment> \<open>what a delivered signal makes of a process; \<open>None\<close>: it is gone\<close>
  "on_signal sg p =
     (case sg of
        SIG0 \<Rightarrow> Some p
      | SIGKILL \<Rightarrow> None
      | SIGTERM \<Rightarrow>
          (case term_delay p of
             None \<Rightarrow> Some p
           | Some d \<Rightarrow>
               if d = 0 then None
               else Some (p\<lparr>ttl := Some (case ttl p of None \<Rightarrow> d | Some t \<Rightarrow> min t d)\<rparr>)))"

definition kill_result :: "world \<Rightarrow> int \<Rightarrow> exn option" where
  "kill_result w pid =
     (if \<not> pid_in_range pid then Some OverflowError
      else case map_of (procs w) pid of
             None \<Rightarrow> Some ProcessLookupError
           | Some p \<Rightarrow> if owned p then None else Some PermissionError)"

definition deliver :: "int \<Rightarrow> signal \<Rightarrow> (int \<times> proc) list \<Rightarrow> (int \<times> proc) list" where
  "deliver pid sg ps =
     List.map_filter (\<lambda>(q, p). if q = pid then map_option (Pair q) (on_signal sg p)
                                else Some (q, p)) ps"

definition os_kill :: "world \<Rightarrow> int \<Rightarrow> signal \<Rightarrow> world \<times> exn option" where
  \<comment> \<open>\<^verbatim>\<open>os.kill(pid, sig)\<close>: the world after the call and the exception raised, if any.\<close>
  "os_kill w pid sg =
     (let r = kill_result w pid;
          w1 = log_event (EvKill pid sg r) w
      in case r of
           Some e \<Rightarrow> (w1, Some e)
         | None \<Rightarrow> (w1\<lparr>procs := deliver pid sg (procs w1)\<rparr>, None))"

definition age :: "nat \<Rightarrow> proc \<Rightarrow> proc option" where
  \<comment> \<open>a process after \<open>n\<close> time units; \<open>None\<close>: it has exited\<close>
  "age n p =
     (case ttl p of
        None \<Rightarrow> Some p
      | Some t \<Rightarrow> if t \<le> n then None else Some (p\<lparr>ttl := Some (t - n)\<rparr>))"

definition time_sleep :: "nat \<Rightarrow> world \<Rightarrow> world" where
  "time_sleep n w =
     log_event (EvSleep n)
       (w\<lparr>procs := List.map_filter (\<lambda>(q, p). map_option (Pair q) (age n p)) (procs w)\<rparr>)"

definition is_oserror :: "exn \<Rightarrow> bool" where
  \<comment> \<open>the exceptions caught by \<^verbatim>\<open>except (OSError, ProcessLookupError)\<close>\<close>
  "is_oserror e = (e = ProcessLookupError \<or> e = PermissionError \<or> e = FileNotFoundError)"

subsection \<open>Python's \<^verbatim>\<open>int(str)\<close>, \<^verbatim>\<open>str.strip\<close>, \<^verbatim>\<open>str(int)\<close> and \<^verbatim>\<open>in\<close>\<close>

definition py_isspace :: "char \<Rightarrow> bool" where
  "py_isspace c = (of_char c \<in> {9, 10, 11, 12, 13, 28, 29, 30, 31, 32, 133, 160 :: nat})"

definition py_strip :: "string \<Rightarrow> string" where
  "py_strip s = rev (dropWhile py_isspace (rev (dropWhile py_isspace s)))"

definition is_digit :: "char \<Rightarrow> bool" where
  "is_digit c = (48 \<le> (of_char c :: nat) \<and> (of_char c :: nat) \<le> 57)"

definition digit_val :: "char \<Rightarrow> int" where
  "digit_val c = int (of_char c) - 48"

fun py_digits :: "string \<Rightarrow> int \<Rightarrow> int option" where
  "py_digits [] acc = Some acc"
| "py_digits [c] acc = (if is_digit c then Some (acc * 10 + digit_val c) else None)"
| "py_digits (c # d # ds) acc =
     (if is_digit c then py_digits (d # ds) (acc * 10 + digit_val c)
      else if c = CHR ''_'' \<and> is_digit d then py_digits ds (acc * 10 + digit_val d)
      else None)"

definition py_unsigned :: "string \<Rightarrow> int option" where
  "py_unsigned s =
     (case s of [] \<Rightarrow> None
      | c # cs \<Rightarrow> if is_digit c then py_digits cs (digit_val c) else None)"

definition py_int :: "string \<Rightarrow> int option" where
  \<comment> \<open>\<^verbatim>\<open>int(s)\<close> in base 10; \<open>None\<close> is ValueError.\<close>
  "py_int s =
     (case py_strip s of
        [] \<Rightarrow> None
      | c # cs \<Rightarrow>
          if c = CHR ''-'' then map_option uminus (py_unsigned cs)
          else if c = CHR ''+'' then py_unsigned cs
          else py_unsigned (c # cs))"

fun nat_digits :: "nat \<Rightarrow> string" where
  "nat_digits n =
     (if n < 10 then [char_of (48 + n)] else nat_digits (n div 10) @ [char_of (48 + n mod 10)])"

definition py_str :: "int \<Rightarrow> string" where
  "py_str i = (if i < 0 then CHR ''-'' # nat_digits (nat (- i)) else nat_digits (nat i))"

fun contains :: "string \<Rightarrow> string \<Rightarrow> bool" where
  \<comment> \<open>\<^verbatim>\<open>sub in s\<close>\<close>
  "contains sub [] = (sub = [])"
| "contains sub (c # cs) = (prefix sub (c # cs) \<or> contains sub cs)"

section \<open>TunnelManager\<close>

definition pid_dir :: string where
  "pid_dir = ''/tmp''"

definition config_dir :: "world \<Rightarrow> string" where
  "config_dir w = path_join (home w) ''.cloudflared''"

definition get_pid_file :: "string \<Rightarrow> string" where
  "get_pid_file tunnel_name = path_join pid_dir (''cloudflared-'' @ tunnel_name @ ''.pid'')"

definition get_log_file :: "string \<Rightarrow> string" where
  "get_log_file tunnel_name = path_join pid_dir (''cloudflared-'' @ tunnel_name @ ''.log'')"

subsection \<open>\<^verbatim>\<open>is_tunnel_running\<close>\<close>

definition run_ps :: "world \<Rightarrow> int \<Rightarrow> world \<times> string" where
  \<comment> \<open>\<^verbatim>\<open>ps -p <pid> -o comm=\<close>: the command name and a newline, or nothing.\<close>
  "run_ps w pid =
     (log_event (EvRun [''ps'', ''-p'', py_str pid, ''-o'', ''comm='']) w,
      case map_of (procs w) pid of None \<Rightarrow> [] | Some p \<Rightarrow> comm p @ [CHR 0x0A])"

definition pgrep_pattern :: "string \<Rightarrow> string" where
  "pgrep_pattern tunnel_name = ''cloudflared.*tunnel.*run.*'' @ tunnel_name"

definition run_pgrep :: "world \<Rightarrow> string \<Rightarrow> world \<times> int list" where
  \<comment> \<open>\<^verbatim>\<open>pgrep -f <pattern>\<close>: the pids of the matching processes, one per output line,
      in enumeration order; the return code is 0 exactly when there is one.\<close>
  "run_pgrep w pat =
     (log_event (EvRun [''pgrep'', ''-f'', pat]) w,
      map fst (filter (\<lambda>(q, p). ere_search w pat (args p)) (procs w)))"

definition check_pid_file :: "world \<Rightarrow> string \<Rightarrow> world \<times> (exn + int option)" where
  \<comment> \<open>The \<^verbatim>\<open>if pid_file.exists():\<close> block: \<open>Inr (Some pid)\<close> is its \<^verbatim>\<open>return True, pid\<close>,
      \<open>Inr None\<close> is falling through to the scan, \<open>Inl\<close> an exception no handler catches.\<close>
  "check_pid_file w pid_file =
     (case files w pid_file of
        None \<Rightarrow> (w, Inr None)
      | Some content \<Rightarrow>
          (case py_int (py_strip content) of
             None \<Rightarrow> (unlink_if_exists pid_file w, Inr None)
           | Some pid \<Rightarrow>
               (case os_kill w pid SIG0 of
                  (w1, Some e) \<Rightarrow>
                    if is_oserror e then (unlink pid_file w1, Inr None) else (w1, Inl e)
                | (w1, None) \<Rightarrow>
                    (case run_ps w1 pid of
                       (w2, stdout) \<Rightarrow>
                         if contains ''cloudflared'' stdout then (w2, Inr (Some pid))
                         else (unlink pid_file w2, Inr None)))))"

definition scan_processes :: "world \<Rightarrow> string \<Rightarrow> world \<times> bool \<times> int option" where
  \<comment> \<open>The \<^verbatim>\<open>pgrep\<close> block and the final \<^verbatim>\<open>return False, None\<close>.\<close>
  "scan_processes w tunnel_name =
     (case run_pgrep w (pgrep_pattern tunnel_name) of
        (w1, pids) \<Rightarrow>
          (case pids of [] \<Rightarrow> (w1, False, None) | p # _ \<Rightarrow> (w1, True, Some p)))"

definition is_tunnel_running :: "world \<Rightarrow> string \<Rightarrow> world \<times> (exn + bool \<times> int option)" where
  "is_tunnel_running w tunnel_name =
     (case check_pid_file w (get_pid_file tunnel_name) of
        (w1, Inl e) \<Rightarrow> (w1, Inl e)
      | (w1, Inr (Some pid)) \<Rightarrow> (w1, Inr (True, Some pid))
      | (w1, Inr None) \<Rightarrow>
          (case scan_processes w1 tunnel_name of (w2, r) \<Rightarrow> (w2, Inr r)))"

subsection \<open>\<^verbatim>\<open>start_tunnel\<close>\<close>

definition falsy :: "string option \<Rightarrow> bool" where
  \<comment> \<open>\<^verbatim>\<open>not config_file\<close>: \<^verbatim>\<open>None\<close> or the empty string\<close>
  "falsy c = (c = None \<or> c = Some [])"

definition resolve_config :: "world \<Rightarrow> string \<Rightarrow> string option \<Rightarrow> world \<times> string option" where
  \<comment> \<open>The \<^verbatim>\<open>if not config_file:\<close> block; the two warning lines are one message.\<close>
  "resolve_config w tunnel_name config_file =
     (if falsy config_file then
        (let default_config = path_join (config_dir w) (tunnel_name @ ''.yml'')
         in if path_exists w default_config then (w, Some default_config)
            else (say (MsgNoConfig tunnel_name default_config) w, config_file))
      else (w, config_file))"

definition build_cmd :: "world \<Rightarrow> string \<Rightarrow> string option \<Rightarrow> string list" where
  "build_cmd w tunnel_name config_file =
     [''cloudflared'', ''tunnel'']
     @ (case config_file of
          None \<Rightarrow> []
        | Some c \<Rightarrow> if c \<noteq> [] \<and> path_exists w c then [''--config'', c] else [])
     @ [''run'', tunnel_name]"

definition join_args :: "string list \<Rightarrow> string" where
  "join_args cmd = (case cmd of [] \<Rightarrow> [] | a # as \<Rightarrow> foldl (\<lambda>s x. s @ '' '' @ x) a as)"

definition popen :: "world \<Rightarrow> string list \<Rightarrow> string \<Rightarrow> world \<times> (exn + int)" where
  \<comment> \<open>\<^verbatim>\<open>subprocess.Popen(cmd, stdout=log, stderr=subprocess.STDOUT, start_new_session=True)\<close>\<close>
  "popen w cmd log_file =
     (let w1 = log_event (EvPopen cmd log_file True True) w
      in case launch w cmd of
           None \<Rightarrow> (w1, Inl FileNotFoundError)
         | Some (pid, t, d) \<Rightarrow>
             (w1\<lparr>procs := filter (\<lambda>(q, p). q \<noteq> pid) (procs w1)
                   @ [(pid, \<lparr>comm = hd cmd, args = join_args cmd, owned = True,
                             ttl = t, term_delay = d\<rparr>)]\<rparr>,
              Inr pid))"

definition spawn_and_settle ::
    "world \<Rightarrow> string \<Rightarrow> string list \<Rightarrow> world \<times> (exn + bool)" where
  \<comment> \<open>The \<^verbatim>\<open>try:\<close> block of \<^verbatim>\<open>start_tunnel\<close> with its \<^verbatim>\<open>except Exception\<close>.\<close>
  "spawn_and_settle w tunnel_name cmd =
     (let pid_file = get_pid_file tunnel_name;
          log_file = get_log_file tunnel_name;
          w1 = write_file log_file [] w
      in case popen w1 cmd log_file of
           (w2, Inl e) \<Rightarrow>
             (unlink_if_exists pid_file (say (MsgErrorStarting e) w2), Inr False)
         | (w2, Inr pid) \<Rightarrow>
             (let w3 = write_file pid_file (py_str pid) w2;
                  w4 = time_sleep 2 w3
              in if alive w4 pid
                 then (say (MsgStarted tunnel_name pid log_file) w4, Inr True)
                 else (unlink_if_exists pid_file (say (MsgStartFailed tunnel_name log_file) w4),
                       Inr False)))"

definition start_tunnel :: "world \<Rightarrow> string \<Rightarrow> string option \<Rightarrow> world \<times> (exn + bool)" where
  "start_tunnel w tunnel_name config_file =
     (case is_tunnel_running w tunnel_name of
        (w1, Inl e) \<Rightarrow> (w1, Inl e)
      | (w1, Inr (running, pid)) \<Rightarrow>
          if running then (say (MsgAlreadyRunning tunnel_name pid) w1, Inr False)
          else (case resolve_config w1 tunnel_name config_file of
                  (w2, config_file') \<Rightarrow>
                    spawn_and_settle w2 tunnel_name (build_cmd w2 tunnel_name config_file')))"

subsection \<open>\<^verbatim>\<open>stop_tunnel\<close>\<close>

datatype poll_outcome = Broke | Exhausted | Raised exn

fun poll_loop :: "world \<Rightarrow> int \<Rightarrow> nat \<Rightarrow> world \<times> poll_outcome" where
  \<comment> \<open>\<^verbatim>\<open>for _ in range(n): try: os.kill(pid, 0); time.sleep(1) except OSError: break\<close>;
      \<open>Exhausted\<close> is reaching the loop's \<^verbatim>\<open>else\<close>.\<close>
  "poll_loop w pid 0 = (w, Exhausted)"
| "poll_loop w pid (Suc n) =
     (case os_kill w pid SIG0 of
        (w1, None) \<Rightarrow> poll_loop (time_sleep 1 w1) pid n
      | (w1, Some e) \<Rightarrow> if is_oserror e then (w1, Broke) else (w1, Raised e))"

definition force_kill :: "world \<Rightarrow> int \<Rightarrow> world" where
  \<comment> \<open>\<^verbatim>\<open>try: os.kill(pid, SIGKILL); time.sleep(1) except: pass\<close>\<close>
  "force_kill w pid =
     (case os_kill w pid SIGKILL of
        (w1, None) \<Rightarrow> time_sleep 1 w1
      | (w1, Some e) \<Rightarrow> w1)"

definition stop_handler :: "world \<Rightarrow> string \<Rightarrow> exn \<Rightarrow> world \<times> (exn + bool)" where
  \<comment> \<open>\<^verbatim>\<open>except ProcessLookupError: ... except Exception as e: ...\<close>\<close>
  "stop_handler w tunnel_name e =
     (if e = ProcessLookupError
      then (say (MsgStoppedGone tunnel_name) (unlink_if_exists (get_pid_file tunnel_name) w),
            Inr True)
      else (say (MsgErrorStopping e) w, Inr False))"

definition terminate :: "world \<Rightarrow> string \<Rightarrow> int option \<Rightarrow> world \<times> (exn + bool)" where
  \<comment> \<open>The \<^verbatim>\<open>try:\<close> block of \<^verbatim>\<open>stop_tunnel\<close>; \<^verbatim>\<open>os.kill(None, ...)\<close> is a TypeError.\<close>
  "terminate w tunnel_name pid_opt =
     (case pid_opt of
        None \<Rightarrow> stop_handler w tunnel_name TypeError
      | Some pid \<Rightarrow>
          (case os_kill w pid SIGTERM of
             (w1, Some e) \<Rightarrow> stop_handler w1 tunnel_name e
           | (w1, None) \<Rightarrow>
               (case poll_loop w1 pid 10 of
                  (w2, Raised e) \<Rightarrow> stop_handler w2 tunnel_name e
                | (w2, outcome) \<Rightarrow>
                    (let w3 = (if outcome = Exhausted then force_kill w2 pid else w2);
                         w4 = unlink_if_exists (get_pid_file tunnel_name) w3
                     in (say (MsgStopped tunnel_name pid_opt) w4, Inr True)))))"

definition stop_tunnel :: "world \<Rightarrow> string \<Rightarrow> world \<times> (exn + bool)" where
  "stop_tunnel w tunnel_name =
     (case is_tunnel_running w tunnel_name of
        (w1, Inl e) \<Rightarrow> (w1, Inl e)
      | (w1, Inr (running, pid)) \<Rightarrow>
          if \<not> running then (say (MsgNotRunning tunnel_name) w1, Inr False)
          else terminate w1 tunnel_name pid)"

subsection \<open>\<^verbatim>\<open>restart_tunnel\<close>\<close>

definition restart_tunnel :: "world \<Rightarrow> string \<Rightarrow> string option \<Rightarrow> world \<times> (exn + bool)" where
  "restart_tunnel w tunnel_name config_file =
     (case is_tunnel_running (say (MsgRestarting tunnel_name) w) tunnel_name of
        (w1, Inl e) \<Rightarrow> (w1, Inl e)
      | (w1, Inr (running, _)) \<Rightarrow>
          if running then
            (case stop_tunnel w1 tunnel_name of
               (w2, Inl e) \<Rightarrow> (w2, Inl e)
             | (w2, Inr stopped) \<Rightarrow>
                 if \<not> stopped then (w2, Inr False)
                 else start_tunnel (time_sleep 2 w2) tunnel_name config_file)
          else start_tunnel w1 tunnel_name config_file)"

subsection \<open>\<^verbatim>\<open>tail_logs\<close>\<close>

fun text_lines :: "string \<Rightarrow> string \<Rightarrow> string list" where
  \<comment> \<open>the lines of a text, \<open>cur\<close> being the line read so far\<close>
  "text_lines cur [] = (if cur = [] then [] else [cur])"
| "text_lines cur (c # cs) =
     (if c = CHR 0x0A then cur # text_lines [] cs else text_lines (cur @ [c]) cs)"

definition last_lines :: "nat \<Rightarrow> string list \<Rightarrow> string list" where
  "last_lines k ls = drop (length ls - k) ls"

definition run_tail :: "world \<Rightarrow> int \<Rightarrow> string \<Rightarrow> world \<times> string list" where
  \<comment> \<open>\<^verbatim>\<open>tail -n <lines> <file>\<close> writing to the terminal; \<^verbatim>\<open>tail\<close> reads \<^verbatim>\<open>-n -K\<close> as
      \<^verbatim>\<open>-n K\<close>, and prints nothing of a file it cannot open.\<close>
  "run_tail w lines log_file =
     (log_event (EvRun [''tail'', ''-n'', py_str lines, log_file]) w,
      case files w log_file of
        None \<Rightarrow> []
      | Some content \<Rightarrow> last_lines (nat \<bar>lines\<bar>) (text_lines [] content))"

definition tail_logs :: "world \<Rightarrow> string \<Rightarrow> int \<Rightarrow> world" where
  "tail_logs w tunnel_name lines =
     (let log_file = get_log_file tunnel_name
      in if \<not> path_exists w log_file then say (MsgNoLogFile tunnel_name) w
         else (case run_tail w lines log_file of
                 (w1, shown) \<Rightarrow> say (MsgTailOutput shown) w1))"

section \<open>Observations used in the statements\<close>

definition new_events :: "world \<Rightarrow> world \<Rightarrow> event list" where
  \<comment> \<open>the system calls made between an earlier world and a later one\<close>
  "new_events w w' = drop (length (trace w)) (trace w')"

definition new_output :: "world \<Rightarrow> world \<Rightarrow> msg list" where
  "new_output w w' = drop (length (out w)) (out w')"

fun probe_event :: "string \<Rightarrow> event \<Rightarrow> bool" where
  \<comment> \<open>the system calls a liveness probe may make: the null signal, \<^verbatim>\<open>ps\<close>, \<^verbatim>\<open>pgrep\<close>,
      and unlinking the tunnel's own pid file\<close>
  "probe_event pf (EvKill pid sg r) = (sg = SIG0)"
| "probe_event pf (EvRun cmd) = (cmd \<noteq> [] \<and> (hd cmd = ''ps'' \<or> hd cmd = ''pgrep''))"
| "probe_event pf (EvUnlink p) = (p = pf)"
| "probe_event pf (EvSleep n) = False"
| "probe_event pf (EvPopen cmd l a b) = False"
| "probe_event pf (EvWrite p s) = False"

definition scan_matches :: "world \<Rightarrow> string \<Rightarrow> int list" where
  \<comment> \<open>the pids whose command line matches the tunnel's pattern, in enumeration order\<close>
  "scan_matches w tunnel_name = snd (run_pgrep w (pgrep_pattern tunnel_name))"

definition poll_calls :: "int \<Rightarrow> nat \<Rightarrow> event list" where
  \<comment> \<open>\<open>k\<close> rounds of: the null signal is delivered, one time unit is slept\<close>
  "poll_calls p k = concat (replicate k [EvKill p SIG0 None, EvSleep 1])"

definition stop_calls :: "int \<Rightarrow> nat \<Rightarrow> exn option \<Rightarrow> event list" where
  \<comment> \<open>The stop sequence in the spec's words: the graceful signal is delivered; \<open>k\<close>
      rounds of polling follow; before the bound of 10 the sequence ends with an
      existence check that fails with \<open>r\<close>; at the bound the forced signal is sent, with
      result \<open>r\<close>, and one more time unit is slept when it was delivered.\<close>
  "stop_calls p k r =
     EvKill p SIGTERM None # poll_calls p k
     @ (if k < 10 then [EvKill p SIG0 r]
        else EvKill p SIGKILL r # (if r = None then [EvSleep 1] else []))"

definition settles :: "nat option \<Rightarrow> bool" where
  \<comment> \<open>a new process with time to live \<open>t\<close> outlives the settle interval of 2 time units\<close>
  "settles t = (case t of None \<Rightarrow> True | Some k \<Rightarrow> 2 < k)"

definition start_command :: "world \<Rightarrow> string \<Rightarrow> string option \<Rightarrow> string list" where
  \<comment> \<open>the argument vector \<^verbatim>\<open>start_tunnel\<close> builds once the probe has said not running\<close>
  "start_command w tunnel_name config_file =
     (case resolve_config w tunnel_name config_file of
        (w2, config_file') \<Rightarrow> build_cmd w2 tunnel_name config_file')"

definition verified_record :: "world \<Rightarrow> string \<Rightarrow> int option" where
  \<comment> \<open>Tier one in the spec's words: the identifier in the registry record, provided it
      is a number, the existence signal succeeds for it, and the command name of that
      process contains the tool's binary name.\<close>
  "verified_record w tunnel_name =
     (case files w (get_pid_file tunnel_name) of
        None \<Rightarrow> None
      | Some c \<Rightarrow>
          (case py_int (py_strip c) of
             None \<Rightarrow> None
           | Some pid \<Rightarrow>
               (case map_of (procs w) pid of
                  None \<Rightarrow> None
                | Some pr \<Rightarrow>
                    if pid_in_range pid \<and> owned pr \<and> contains ''cloudflared'' (comm pr)
                    then Some pid else None)))"

definition record_in_range :: "world \<Rightarrow> string \<Rightarrow> bool" where
  \<comment> \<open>the registry record, if it is a number, fits \<^verbatim>\<open>pid_t\<close>\<close>
  "record_in_range w tunnel_name =
     (case files w (get_pid_file tunnel_name) of
        None \<Rightarrow> True
      | Some c \<Rightarrow> (case py_int (py_strip c) of None \<Rightarrow> True | Some pid \<Rightarrow> pid_in_range pid))"

section \<open>Example worlds\<close>

definition demo_search :: "string \<Rightarrow> string \<Rightarrow> bool" where
  \<comment> \<open>a search that knows one pattern, the one of tunnel \<^verbatim>\<open>demo\<close>, and finds the
      command lines that hold the plain invocation\<close>
  "demo_search pat cmdline =
     (pat = ''cloudflared.*tunnel.*run.*demo'' \<and> contains ''cloudflared tunnel run demo'' cmdline)"

definition cloudflared_demo :: proc where
  "cloudflared_demo =
     \<lparr>comm = ''cloudflared'', args = ''cloudflared tunnel run demo'', owned = True,
      ttl = None, term_delay = Some 1\<rparr>"

definition shell :: proc where
  "shell = \<lparr>comm = ''bash'', args = ''-bash'', owned = True, ttl = None, term_delay = Some 1\<rparr>"

definition quiet_world :: world where
  \<comment> \<open>no file, no process; a \<^verbatim>\<open>Popen\<close> yields pid 4242, a process that runs until told to stop\<close>
  "quiet_world =
     \<lparr>files = Map.empty, procs = [], home = ''/home/u'', ere_search = demo_search,
      launch = (\<lambda>cmd. Some (4242, None, Some 1)), trace = [], out = []\<rparr>"

definition overflow_world :: world where
  \<comment> \<open>the pid file holds \<open>2 ^ 32\<close>; a \<^verbatim>\<open>cloudflared\<close> for the tunnel runs as pid 42\<close>
  "overflow_world =
     quiet_world\<lparr>files := [''/tmp/cloudflared-demo.pid'' \<mapsto> ''4294967296''],
                 procs := [(42, cloudflared_demo)]\<rparr>"

definition malformed_world :: world where
  "malformed_world = quiet_world\<lparr>files := [''/tmp/cloudflared-demo.pid'' \<mapsto> ''not-a-pid'']\<rparr>"

definition recycled_world :: world where
  \<comment> \<open>the recorded pid 7 now belongs to a shell\<close>
  "recycled_world =
     quiet_world\<lparr>files := [''/tmp/cloudflared-demo.pid'' \<mapsto> ''7''], procs := [(7, shell)]\<rparr>"

definition stale_world :: world where
  \<comment> \<open>the pid file names pid 999, which is gone; the tunnel runs as pid 42\<close>
  "stale_world =
     quiet_world\<lparr>files := [''/tmp/cloudflared-demo.pid'' \<mapsto> ''999''],
                 procs := [(42, cloudflared_demo)]\<rparr>"

definition running_world :: world where
  \<comment> \<open>the tunnel runs as pid 42 and the pid file says so\<close>
  "running_world =
     quiet_world\<lparr>files := [''/tmp/cloudflared-demo.pid'' \<mapsto> ''42''],
                 procs := [(42, cloudflared_demo)]\<rparr>"

definition dead_world :: world where
  \<comment> \<open>the pid file names pid 999, which is gone; nothing runs\<close>
  "dead_world = quiet_world\<lparr>files := [''/tmp/cloudflared-demo.pid'' \<mapsto> ''999'']\<rparr>"

definition foreign_world :: world where
  \<comment> \<open>the tunnel runs as pid 42 under another user; there is no pid file\<close>
  "foreign_world = quiet_world\<lparr>procs := [(42, cloudflared_demo\<lparr>owned := False\<rparr>)]\<rparr>"

definition logged_world :: world where
  \<comment> \<open>the log of tunnel \<^verbatim>\<open>demo\<close> holds three lines\<close>
  "logged_world =
     quiet_world\<lparr>files := [''/tmp/cloudflared-demo.log'' \<mapsto>
       ''one'' @ [CHR 0x0A] @ ''two'' @ [CHR 0x0A] @ ''three'' @ [CHR 0x0A]]\<rparr>"

definition other_pid_world :: world where
  \<comment> \<open>as \<open>quiet_world\<close>, but a \<^verbatim>\<open>Popen\<close> yields pid 5151\<close>
  "other_pid_world = quiet_world\<lparr>launch := (\<lambda>cmd. Some (5151, None, Some 1))\<rparr>"

definition crashing_world :: world where
  \<comment> \<open>as \<open>quiet_world\<close>, but the launched process exits after one time unit\<close>
  "crashing_world = quiet_world\<lparr>launch := (\<lambda>cmd. Some (4242, Some 1, Some 1))\<rparr>"

definition configured_world :: world where
  \<comment> \<open>the name-derived default config of tunnel \<^verbatim>\<open>demo\<close> exists\<close>
  "configured_world =
     quiet_world\<lparr>files := [''/home/u/.cloudflared/demo.yml'' \<mapsto> ''tunnel: demo'']\<rparr>"

section \<open>Basic facts about the environment\<close>

lemma log_event_simps [simp]:
  "files (log_event e w) = files w" "procs (log_event e w) = procs w"
  "home (log_event e w) = home w" "ere_search (log_event e w) = ere_search w"
  "launch (log_event e w) = launch w" "out (log_event e w) = out w"
  "trace (log_event e w) = trace w @ [e]"
  by (simp_all add: log_event_def)

lemma say_simps [simp]:
  "files (say m w) = files w" "procs (say m w) = procs w"
  "home (say m w) = home w" "ere_search (say m w) = ere_search w"
  "launch (say m w) = launch w" "out (say m w) = out w @ [m]"
  "trace (say m w) = trace w"
  by (simp_all add: say_def)

lemma unlink_simps [simp]:
  "files (unlink p w) = (files w)(p := None)" "procs (unlink p w) = procs w"
  "home (unlink p w) = home w" "ere_search (unlink p w) = ere_search w"
  "launch (unlink p w) = launch w" "out (unlink p w) = out w"
  "trace (unlink p w) = trace w @ [EvUnlink p]"
  by (simp_all add: unlink_def)

lemma write_file_simps [simp]:
  "files (write_file p s w) = (files w)(p \<mapsto> s)" "procs (write_file p s w) = procs w"
  "home (write_file p s w) = home w" "ere_search (write_file p s w) = ere_search w"
  "launch (write_file p s w) = launch w" "out (write_file p s w) = out w"
  "trace (write_file p s w) = trace w @ [EvWrite p s]"
  by (simp_all add: write_file_def)

lemma deliver_SIG0 [simp]: "deliver pid SIG0 ps = ps"
  by (induction ps) (auto simp: deliver_def List.map_filter_simps on_signal_def)

lemma os_kill_fail: "kill_result w pid = Some e \<Longrightarrow> os_kill w pid sg = (log_event (EvKill pid sg (Some e)) w, Some e)"
  by (simp add: os_kill_def Let_def)

lemma os_kill_SIG0: "os_kill w pid SIG0 = (log_event (EvKill pid SIG0 (kill_result w pid)) w, kill_result w pid)"
  by (cases "kill_result w pid") (simp_all add: os_kill_def Let_def log_event_def)

lemma contains_sublist: "contains sub s = sublist sub s"
  by (induction s) (auto simp: sublist_Cons_right)

lemma contains_snoc:
  assumes "sub \<noteq> []" "last sub \<noteq> c"
  shows "contains sub (s @ [c]) = contains sub s"
proof -
  have "sublist sub (s @ [c]) \<Longrightarrow> sublist sub s"
  proof -
    assume "sublist sub (s @ [c])"
    then obtain ps ss where e: "s @ [c] = ps @ sub @ ss" by (auto simp: sublist_def)
    show "sublist sub s"
    proof (cases ss rule: rev_cases)
      case Nil
      with e assms have "last (s @ [c]) = last sub" by simp
      with assms show ?thesis by simp
    next
      case (snoc ss' x)
      with e have "s = ps @ sub @ ss'" by (metis append_assoc butlast_snoc)
      then show ?thesis by (auto simp: sublist_def)
    qed
  qed
  moreover have "sublist sub s \<Longrightarrow> sublist sub (s @ [c])"
    by (metis sublist_appendI sublist_order.order_trans sublist_append_rightI) 
  ultimately show ?thesis by (auto simp: contains_sublist)
qed

lemma ps_check: "contains ''cloudflared'' (cm @ [CHR 0x0A]) = contains ''cloudflared'' cm"
  by (rule contains_snoc) simp_all

section \<open>The liveness probe\<close>

lemma check_pid_file_absent:
  "files w pf = None \<Longrightarrow> check_pid_file w pf = (w, Inr None)"
  by (simp add: check_pid_file_def)

lemma check_pid_file_malformed:
  "files w pf = Some c \<Longrightarrow> py_int (py_strip c) = None \<Longrightarrow>
   check_pid_file w pf = (unlink pf w, Inr None)"
  by (simp add: check_pid_file_def unlink_if_exists_def)

lemma check_pid_file_kill_fails:
  "files w pf = Some c \<Longrightarrow> py_int (py_strip c) = Some pid \<Longrightarrow> kill_result w pid = Some e \<Longrightarrow>
   check_pid_file w pf =
     (if is_oserror e then (unlink pf (log_event (EvKill pid SIG0 (Some e)) w), Inr None)
      else (log_event (EvKill pid SIG0 (Some e)) w, Inl e))"
  by (simp add: check_pid_file_def os_kill_SIG0)

lemma check_pid_file_live:
  "files w pf = Some c \<Longrightarrow> py_int (py_strip c) = Some pid \<Longrightarrow> kill_result w pid = None \<Longrightarrow>
   map_of (procs w) pid = Some p \<Longrightarrow>
   check_pid_file w pf =
     (let w2 = log_event (EvRun [''ps'', ''-p'', py_str pid, ''-o'', ''comm=''])
                 (log_event (EvKill pid SIG0 None) w)
      in if contains ''cloudflared'' (comm p) then (w2, Inr (Some pid))
         else (unlink pf w2, Inr None))"
  by (simp add: check_pid_file_def os_kill_SIG0 run_ps_def ps_check Let_def)

lemma kill_result_None:
  "kill_result w pid = None \<longleftrightarrow> pid_in_range pid \<and> (\<exists>p. map_of (procs w) pid = Some p \<and> owned p)"
  by (auto simp: kill_result_def split: option.splits)

lemma kill_result_cases:
  "kill_result w pid = Some e \<Longrightarrow> e = OverflowError \<and> \<not> pid_in_range pid \<or> is_oserror e \<and> pid_in_range pid"
  by (auto simp: kill_result_def is_oserror_def split: option.splits if_splits)

lemma check_pid_file_frame:
  assumes "check_pid_file w pf = (w1, r)"
  shows "procs w1 = procs w" "out w1 = out w" "home w1 = home w" "ere_search w1 = ere_search w"
    "launch w1 = launch w" "files w1 = files w \<or> files w1 = (files w)(pf := None)"
    "r = Inr None \<Longrightarrow> files w1 = (files w)(pf := None)"
    "r = Inr (Some pid) \<Longrightarrow> files w1 = files w \<and> kill_result w pid = None \<and> (\<exists>c. files w pf = Some c \<and> py_int (py_strip c) = Some pid) \<and> (\<exists>p. map_of (procs w) pid = Some p \<and> contains ''cloudflared'' (comm p))"
  using assms
  by (auto simp: check_pid_file_def os_kill_SIG0 run_ps_def unlink_if_exists_def ps_check
      split: option.splits if_splits prod.splits)

lemma check_pid_file_trace:
  assumes "check_pid_file w pf = (w1, r)"
  shows "\<exists>es. trace w1 = trace w @ es \<and> (\<forall>e\<in>set es. probe_event pf e)"
  using assms
  by (auto simp: check_pid_file_def os_kill_SIG0 run_ps_def unlink_if_exists_def
      split: option.splits if_splits prod.splits)

lemma scan_processes_eq:
  "scan_processes w n =
     (log_event (EvRun [''pgrep'', ''-f'', pgrep_pattern n]) w,
      case scan_matches w n of [] \<Rightarrow> (False, None) | p # _ \<Rightarrow> (True, Some p))"
  by (simp add: scan_processes_def scan_matches_def run_pgrep_def split: list.splits)

lemma scan_matches_frame:
  "procs w1 = procs w \<Longrightarrow> ere_search w1 = ere_search w \<Longrightarrow> scan_matches w1 n = scan_matches w n"
  by (simp add: scan_matches_def run_pgrep_def)

lemma scan_matches_subset: "set (scan_matches w n) \<subseteq> fst ` set (procs w)"
  by (auto simp: scan_matches_def run_pgrep_def)

lemma scan_matches_alive:
  assumes "scan_matches w n = p # ps"
  shows "alive w p"
proof -
  have "p \<in> set (scan_matches w n)" using assms by simp
  then have "p \<in> fst ` set (procs w)" using scan_matches_subset by blast
  then show ?thesis by (simp add: alive_def map_of_eq_None_iff)
qed

lemma is_tunnel_running_eq:
  assumes "check_pid_file w (get_pid_file n) = (wc, rc)"
  shows "is_tunnel_running w n =
     (case rc of
        Inl e \<Rightarrow> (wc, Inl e)
      | Inr (Some pid) \<Rightarrow> (wc, Inr (True, Some pid))
      | Inr None \<Rightarrow>
          (log_event (EvRun [''pgrep'', ''-f'', pgrep_pattern n]) wc,
           Inr (case scan_matches wc n of [] \<Rightarrow> (False, None) | p # _ \<Rightarrow> (True, Some p))))"
  using assms
  by (simp add: is_tunnel_running_def scan_processes_eq split: sum.splits option.splits)

lemma is_tunnel_running_frame:
  assumes "is_tunnel_running w n = (w1, r)"
  shows "procs w1 = procs w" "out w1 = out w" "home w1 = home w" "ere_search w1 = ere_search w"
    "launch w1 = launch w"
    "files w1 = files w \<or> files w1 = (files w)(get_pid_file n := None)"
    "\<exists>es. trace w1 = trace w @ es \<and> (\<forall>e\<in>set es. probe_event (get_pid_file n) e)"
proof -
  obtain wc rc where c: "check_pid_file w (get_pid_file n) = (wc, rc)" by (rule prod.exhaust)
  note f = check_pid_file_frame[OF c]
  note e = is_tunnel_running_eq[OF c]
  from check_pid_file_trace[OF c] obtain es where
    es: "trace wc = trace w @ es" "\<forall>e\<in>set es. probe_event (get_pid_file n) e"
    by blast
  have "fst (is_tunnel_running w n) = wc \<or>
      fst (is_tunnel_running w n) = log_event (EvRun [''pgrep'', ''-f'', pgrep_pattern n]) wc"
    unfolding e by (simp split: sum.split option.split)
  with assms have w1: "w1 = wc \<or> w1 = log_event (EvRun [''pgrep'', ''-f'', pgrep_pattern n]) wc"
    by simp
  from w1 show "procs w1 = procs w" by (rule disjE) (simp_all add: f(1))
  from w1 show "out w1 = out w" by (rule disjE) (simp_all add: f(2))
  from w1 show "home w1 = home w" by (rule disjE) (simp_all add: f(3))
  from w1 show "ere_search w1 = ere_search w" by (rule disjE) (simp_all add: f(4))
  from w1 show "launch w1 = launch w" by (rule disjE) (simp_all add: f(5))
  from w1 have "files w1 = files wc" by (rule disjE) simp_all
  with f(6) show "files w1 = files w \<or> files w1 = (files w)(get_pid_file n := None)" by simp
  from w1 show "\<exists>es. trace w1 = trace w @ es \<and> (\<forall>e\<in>set es. probe_event (get_pid_file n) e)"
  proof
    assume "w1 = wc"
    with es show ?thesis by blast
  next
    assume "w1 = log_event (EvRun [''pgrep'', ''-f'', pgrep_pattern n]) wc"
    with es have "trace w1 = trace w @ (es @ [EvRun [''pgrep'', ''-f'', pgrep_pattern n]])"
      "\<forall>e\<in>set (es @ [EvRun [''pgrep'', ''-f'', pgrep_pattern n]]). probe_event (get_pid_file n) e"
      by simp_all
    then show ?thesis by blast
  qed
qed

lemma is_tunnel_running_not_running:
  assumes "is_tunnel_running w n = (w1, Inr (False, pid))"
  shows "pid = None" "files w1 = (files w)(get_pid_file n := None)" "scan_matches w n = []"
proof -
  obtain wc rc where c: "check_pid_file w (get_pid_file n) = (wc, rc)" by (rule prod.exhaust)
  note f = check_pid_file_frame[OF c]
  note E = assms[unfolded is_tunnel_running_eq[OF c]]
  have rc: "rc = Inr None"
  proof (cases rc)
    case (Inl x)
    with E show ?thesis by simp
  next
    case (Inr o1)
    with E show ?thesis by (cases o1) simp_all
  qed
  from E have w1: "w1 = log_event (EvRun [''pgrep'', ''-f'', pgrep_pattern n]) wc"
    and s: "(case scan_matches wc n of [] \<Rightarrow> (False, None) | p # _ \<Rightarrow> (True, Some p)) = (False, pid)"
    unfolding rc by simp_all
  from s show "pid = None" by (cases "scan_matches wc n") simp_all
  from w1 f(7)[OF rc] show "files w1 = (files w)(get_pid_file n := None)" by simp
  from s have "scan_matches wc n = []" by (cases "scan_matches wc n") simp_all
  with scan_matches_frame[OF f(1) f(4), of n] show "scan_matches w n = []" by simp
qed

lemma is_tunnel_running_running:
  assumes "is_tunnel_running w n = (w1, Inr (True, pid))"
  shows "\<exists>p. pid = Some p \<and> alive w p"
proof -
  obtain wc rc where c: "check_pid_file w (get_pid_file n) = (wc, rc)" by (rule prod.exhaust)
  note f = check_pid_file_frame[OF c]
  note E = assms[unfolded is_tunnel_running_eq[OF c]]
  show ?thesis
  proof (cases rc)
    case (Inl x)
    with E show ?thesis by simp
  next
    case (Inr o1)
    show ?thesis
    proof (cases o1)
      case None
      with Inr E have
        s: "(case scan_matches wc n of [] \<Rightarrow> (False, None) | p # _ \<Rightarrow> (True, Some p)) = (True, pid)"
        by simp
      then obtain p ps where "scan_matches wc n = p # ps" "pid = Some p"
        by (cases "scan_matches wc n") auto
      with scan_matches_frame[OF f(1) f(4), of n] scan_matches_alive[of w n p ps]
      show ?thesis by simp
    next
      case (Some p)
      with Inr E have "pid = Some p" by simp
      moreover from f(8)[of p] Inr Some have "alive w p" by (auto simp: alive_def)
      ultimately show ?thesis by simp
    qed
  qed
qed

lemma get_pid_file_demo: "get_pid_file ''demo'' = ''/tmp/cloudflared-demo.pid''"
  by (simp add: get_pid_file_def path_join_def pid_dir_def)

lemma get_log_file_demo: "get_log_file ''demo'' = ''/tmp/cloudflared-demo.log''"
  by (simp add: get_log_file_def path_join_def pid_dir_def)

lemma pgrep_pattern_demo: "pgrep_pattern ''demo'' = ''cloudflared.*tunnel.*run.*demo''"
  by (simp add: pgrep_pattern_def)

lemmas py_int_eval = py_int_def py_strip_def py_isspace_def py_unsigned_def is_digit_def
  digit_val_def

lemma py_int_examples:
  "py_int (py_strip ''not-a-pid'') = None" "py_int (py_strip ''7'') = Some 7"
  "py_int (py_strip ''4294967296'') = Some 4294967296" "py_int (py_strip ''999'') = Some 999"
  by (simp_all add: py_int_eval)

section \<open>Claims about the liveness probe\<close>

text \<open>
  Claim C5. When the pid file of tunnel \<open>n\<close> holds text that \<^verbatim>\<open>int\<close> rejects (a
  \<^verbatim>\<open>ValueError\<close>) and no process matches the scan pattern, the probe (which is all
  that the status display calls) returns \<^verbatim>\<open>(False, None)\<close> normally, without an
  exception and without printing, and the pid file is gone afterwards; nothing else
  in the file system and nothing in the process table changes.
\<close>
theorem status_malformed_record:
  assumes "files w (get_pid_file n) = Some c" and "py_int (py_strip c) = None"
    and "scan_matches w n = []"
  shows "snd (is_tunnel_running w n) = Inr (False, None)
       \<and> files (fst (is_tunnel_running w n)) = (files w)(get_pid_file n := None)
       \<and> procs (fst (is_tunnel_running w n)) = procs w
       \<and> out (fst (is_tunnel_running w n)) = out w"
proof -
  have c: "check_pid_file w (get_pid_file n) = (unlink (get_pid_file n) w, Inr None)"
    using assms(1,2) by (rule check_pid_file_malformed)
  have "scan_matches (unlink (get_pid_file n) w) n = scan_matches w n"
    by (rule scan_matches_frame) simp_all
  with assms(3) show ?thesis by (simp add: is_tunnel_running_eq[OF c])
qed

theorem status_malformed_record_witness:
  "files malformed_world (get_pid_file ''demo'') = Some ''not-a-pid''
   \<and> py_int (py_strip ''not-a-pid'') = None
   \<and> scan_matches malformed_world ''demo'' = []
   \<and> snd (is_tunnel_running malformed_world ''demo'') = Inr (False, None)
   \<and> files (fst (is_tunnel_running malformed_world ''demo'')) (get_pid_file ''demo'') = None"
proof -
  have h1: "files malformed_world (get_pid_file ''demo'') = Some ''not-a-pid''"
    by (simp add: malformed_world_def quiet_world_def get_pid_file_demo)
  have h2: "py_int (py_strip ''not-a-pid'') = None" by (rule py_int_examples)
  have h3: "scan_matches malformed_world ''demo'' = []"
    by (simp add: scan_matches_def run_pgrep_def malformed_world_def quiet_world_def)
  from status_malformed_record[OF h1 h2 h3] h1 h2 h3 show ?thesis by simp
qed

lemma check_pid_file_not_tool:
  assumes "files w pf = Some c" and "py_int (py_strip c) = Some pid" and "pid_in_range pid"
    and "map_of (procs w) pid = Some p" and "\<not> contains ''cloudflared'' (comm p)"
  shows "\<exists>wc. check_pid_file w pf = (wc, Inr None) \<and> procs wc = procs w \<and> out wc = out w
           \<and> ere_search wc = ere_search w \<and> files wc = (files w)(pf := None)"
proof (cases "owned p")
  case True
  with assms(3,4) have "kill_result w pid = None" by (simp add: kill_result_def)
  from check_pid_file_live[OF assms(1,2) this assms(4)] assms(5) show ?thesis
    by (simp add: Let_def)
next
  case False
  with assms(3,4) have "kill_result w pid = Some PermissionError" by (simp add: kill_result_def)
  from check_pid_file_kill_fails[OF assms(1,2) this] show ?thesis
    by (simp add: is_oserror_def)
qed

text \<open>
  Claim C6. When the pid file of tunnel \<open>n\<close> holds the pid of a live process whose
  command name does not contain \<^verbatim>\<open>cloudflared\<close>, and no process matches the scan
  pattern, the probe returns \<^verbatim>\<open>(False, None)\<close> and the pid file is gone afterwards;
  the process table is as before. (Whether the caller may signal the process makes
  no difference: \<^verbatim>\<open>EPERM\<close> on the null signal takes the same way out.)
\<close>

theorem status_recycled_pid:
  assumes "files w (get_pid_file n) = Some c" and "py_int (py_strip c) = Some pid"
    and "pid_in_range pid" and "map_of (procs w) pid = Some p"
    and "\<not> contains ''cloudflared'' (comm p)" and "scan_matches w n = []"
  shows "snd (is_tunnel_running w n) = Inr (False, None)
       \<and> files (fst (is_tunnel_running w n)) = (files w)(get_pid_file n := None)
       \<and> procs (fst (is_tunnel_running w n)) = procs w"
proof -
  from check_pid_file_not_tool[OF assms(1-5)] obtain wc where
    c: "check_pid_file w (get_pid_file n) = (wc, Inr None)" and
    f: "procs wc = procs w" "ere_search wc = ere_search w"
       "files wc = (files w)(get_pid_file n := None)"
    by blast
  from scan_matches_frame[OF f(1,2), of n] assms(6) have "scan_matches wc n = []" by simp
  with f show ?thesis by (simp add: is_tunnel_running_eq[OF c])
qed

theorem status_recycled_pid_witness:
  "files recycled_world (get_pid_file ''demo'') = Some ''7''
   \<and> py_int (py_strip ''7'') = Some 7 \<and> pid_in_range 7
   \<and> map_of (procs recycled_world) 7 = Some shell
   \<and> \<not> contains ''cloudflared'' (comm shell)
   \<and> scan_matches recycled_world ''demo'' = []
   \<and> snd (is_tunnel_running recycled_world ''demo'') = Inr (False, None)
   \<and> files (fst (is_tunnel_running recycled_world ''demo'')) (get_pid_file ''demo'') = None"
proof -
  have h1: "files recycled_world (get_pid_file ''demo'') = Some ''7''"
    by (simp add: recycled_world_def quiet_world_def get_pid_file_demo)
  have h2: "py_int (py_strip ''7'') = Some 7" by (rule py_int_examples)
  have h3: "pid_in_range 7" by (simp add: pid_in_range_def)
  have h4: "map_of (procs recycled_world) 7 = Some shell"
    by (simp add: recycled_world_def quiet_world_def)
  have h5: "\<not> contains ''cloudflared'' (comm shell)" by (simp add: shell_def)
  have h6: "scan_matches recycled_world ''demo'' = []"
    by (simp add: scan_matches_def run_pgrep_def recycled_world_def quiet_world_def
        pgrep_pattern_demo demo_search_def shell_def)
  from status_recycled_pid[OF h1 h2 h3 h4 h5 h6] h1 h2 h3 h4 h5 h6 show ?thesis by simp
qed

text \<open>
  The two tiers of the probe, for every world whose registry record, if it is a
  number, fits \<^verbatim>\<open>pid_t\<close>: a verified record wins and leaves the file system alone;
  otherwise the pid file is absent afterwards and the first match of the scan, if
  there is one, is reported.
\<close>

lemma check_pid_file_two_tier:
  assumes "record_in_range w n"
  shows "snd (check_pid_file w (get_pid_file n)) = Inr (verified_record w n)"
    and "files (fst (check_pid_file w (get_pid_file n))) =
          (if verified_record w n = None then (files w)(get_pid_file n := None) else files w)"
    and "procs (fst (check_pid_file w (get_pid_file n))) = procs w"
    and "ere_search (fst (check_pid_file w (get_pid_file n))) = ere_search w"
proof -
  let ?pf = "get_pid_file n"
  have "snd (check_pid_file w ?pf) = Inr (verified_record w n)
      \<and> files (fst (check_pid_file w ?pf)) =
          (if verified_record w n = None then (files w)(?pf := None) else files w)
      \<and> procs (fst (check_pid_file w ?pf)) = procs w
      \<and> ere_search (fst (check_pid_file w ?pf)) = ere_search w"
  proof (cases "files w ?pf")
    case None
    then show ?thesis
      by (simp add: check_pid_file_absent verified_record_def fun_upd_idem)
  next
    case (Some c)
    show ?thesis
    proof (cases "py_int (py_strip c)")
      case None
      with Some show ?thesis
        by (simp add: check_pid_file_malformed verified_record_def)
    next
      case pid: (Some pid)
      from assms Some pid have rg: "pid_in_range pid" by (simp add: record_in_range_def)
      show ?thesis
      proof (cases "kill_result w pid")
        case None
        then obtain pr where pr: "map_of (procs w) pid = Some pr" "owned pr"
          by (auto simp: kill_result_None)
        from check_pid_file_live[OF Some pid None pr(1)] Some pid pr rg show ?thesis
          by (simp add: verified_record_def Let_def)
      next
        case e: (Some e)
        with rg have os: "is_oserror e" using kill_result_cases[of w pid e] by auto
        from e rg have "map_of (procs w) pid = None \<or> (\<exists>pr. map_of (procs w) pid = Some pr \<and> \<not> owned pr)"
          by (auto simp: kill_result_def split: option.splits if_splits)
        then have v: "verified_record w n = None"
          using Some pid by (auto simp: verified_record_def)
        from check_pid_file_kill_fails[OF Some pid e] os v show ?thesis by simp
      qed
    qed
  qed
  then show "snd (check_pid_file w ?pf) = Inr (verified_record w n)"
    and "files (fst (check_pid_file w ?pf)) =
          (if verified_record w n = None then (files w)(?pf := None) else files w)"
    and "procs (fst (check_pid_file w ?pf)) = procs w"
    and "ere_search (fst (check_pid_file w ?pf)) = ere_search w"
    by simp_all
qed

lemma is_tunnel_running_two_tier:
  assumes "record_in_range w n"
  shows "snd (is_tunnel_running w n) =
     Inr (case verified_record w n of
            Some pid \<Rightarrow> (True, Some pid)
          | None \<Rightarrow> (case scan_matches w n of [] \<Rightarrow> (False, None) | p # _ \<Rightarrow> (True, Some p)))"
    and "files (fst (is_tunnel_running w n)) =
          (if verified_record w n = None then (files w)(get_pid_file n := None) else files w)"
proof -
  let ?C = "check_pid_file w (get_pid_file n)"
  note t = check_pid_file_two_tier[OF assms]
  have c: "?C = (fst ?C, Inr (verified_record w n))" using t(1) by (simp add: prod_eq_iff)
  note e = is_tunnel_running_eq[OF c]
  have sm: "scan_matches (fst ?C) n = scan_matches w n"
    by (rule scan_matches_frame[OF t(3) t(4)])
  show "snd (is_tunnel_running w n) =
     Inr (case verified_record w n of
            Some pid \<Rightarrow> (True, Some pid)
          | None \<Rightarrow> (case scan_matches w n of [] \<Rightarrow> (False, None) | p # _ \<Rightarrow> (True, Some p)))"
    unfolding e by (cases "verified_record w n") (simp_all add: sm)
  show "files (fst (is_tunnel_running w n)) =
          (if verified_record w n = None then (files w)(get_pid_file n := None) else files w)"
    unfolding e by (cases "verified_record w n") (simp_all add: t(2))
qed

lemma overflow_world_facts:
  "files overflow_world (get_pid_file ''demo'') = Some ''4294967296''"
  "kill_result overflow_world 4294967296 = Some OverflowError"
  "scan_matches overflow_world ''demo'' = [42]"
  by (simp_all add: overflow_world_def quiet_world_def get_pid_file_demo kill_result_def
      pid_in_range_def scan_matches_def run_pgrep_def pgrep_pattern_demo demo_search_def
      cloudflared_demo_def)

text \<open>
  Claim C1, at the input where the code leaves the algorithm. The pid file holds
  \<open>2 ^ 32\<close>, which \<^verbatim>\<open>int\<close> accepts; \<^verbatim>\<open>os.kill\<close> raises \<^verbatim>\<open>OverflowError\<close> for it, an
  exception that neither \<^verbatim>\<open>except (OSError, ProcessLookupError)\<close> nor
  \<^verbatim>\<open>except (ValueError, IOError)\<close> catches. The probe ends with that exception: the
  record is still there and the scan, which would have found pid 42, is never run.
\<close>

theorem probe_overflow_record:
  "snd (is_tunnel_running overflow_world ''demo'') = Inl OverflowError
   \<and> files (fst (is_tunnel_running overflow_world ''demo'')) (get_pid_file ''demo'')
       = Some ''4294967296''
   \<and> scan_matches overflow_world ''demo'' = [42]"
proof -
  note c = check_pid_file_kill_fails[OF overflow_world_facts(1) py_int_examples(3)
      overflow_world_facts(2)]
  have c': "check_pid_file overflow_world (get_pid_file ''demo'') =
      (log_event (EvKill 4294967296 SIG0 (Some OverflowError)) overflow_world, Inl OverflowError)"
    unfolding c by (simp add: is_oserror_def)
  show ?thesis by (simp add: is_tunnel_running_eq[OF c'] overflow_world_facts)
qed

section \<open>Starting and stopping: the first decision\<close>

lemma pid_log_distinct: "get_pid_file n \<noteq> get_log_file n"
  by (simp add: get_pid_file_def get_log_file_def path_join_def pid_dir_def)

lemma new_events_append: "trace w' = trace w @ es \<Longrightarrow> new_events w w' = es"
  by (simp add: new_events_def)

lemma new_output_append: "out w' = out w @ ms \<Longrightarrow> new_output w w' = ms"
  by (simp add: new_output_def)

lemma is_tunnel_running_verified:
  assumes "files w (get_pid_file n) = Some c" and "py_int (py_strip c) = Some p"
    and "pid_in_range p" and "map_of (procs w) p = Some pr" and "owned pr"
    and "contains ''cloudflared'' (comm pr)"
  shows "snd (is_tunnel_running w n) = Inr (True, Some p)"
    and "files (fst (is_tunnel_running w n)) = files w"
proof -
  from assms(3-5) have k: "kill_result w p = None" by (simp add: kill_result_def)
  note c = check_pid_file_live[OF assms(1,2) k assms(4)]
  have c': "check_pid_file w (get_pid_file n) =
     (log_event (EvRun [''ps'', ''-p'', py_str p, ''-o'', ''comm=''])
        (log_event (EvKill p SIG0 None) w), Inr (Some p))"
    unfolding c using assms(6) by (simp add: Let_def)
  show "snd (is_tunnel_running w n) = Inr (True, Some p)"
    by (simp add: is_tunnel_running_eq[OF c'])
  show "files (fst (is_tunnel_running w n)) = files w"
    by (simp add: is_tunnel_running_eq[OF c'])
qed

lemma check_pid_file_found_verified:
  assumes "check_pid_file w (get_pid_file n) = (wc, Inr (Some p))"
  shows "verified_record w n = Some p"
proof -
  from check_pid_file_frame(8)[OF assms, of p] obtain c pr where
    k: "kill_result w p = None" and c: "files w (get_pid_file n) = Some c"
    "py_int (py_strip c) = Some p" and pr: "map_of (procs w) p = Some pr"
    "contains ''cloudflared'' (comm pr)"
    by auto
  from k pr(1) have "pid_in_range p" "owned pr" by (auto simp: kill_result_None)
  with c pr show ?thesis by (simp add: verified_record_def)
qed

lemma is_tunnel_running_unverified:
  assumes "is_tunnel_running w n = (w1, Inr r)" and "verified_record w n = None"
  shows "files w1 = (files w)(get_pid_file n := None)"
proof -
  obtain wc rc where c: "check_pid_file w (get_pid_file n) = (wc, rc)" by (rule prod.exhaust)
  note f = check_pid_file_frame[OF c]
  note E = assms(1)[unfolded is_tunnel_running_eq[OF c]]
  show ?thesis
  proof (cases rc)
    case (Inl x)
    with E show ?thesis by simp
  next
    case (Inr o1)
    show ?thesis
    proof (cases o1)
      case None
      with Inr E have "w1 = log_event (EvRun [''pgrep'', ''-f'', pgrep_pattern n]) wc" by simp
      with f(7) Inr None show ?thesis by simp
    next
      case (Some q)
      with Inr c have "check_pid_file w (get_pid_file n) = (wc, Inr (Some q))" by simp
      from check_pid_file_found_verified[OF this] assms(2) show ?thesis by simp
    qed
  qed
qed

lemma start_tunnel_running:
  assumes "is_tunnel_running w n = (w1, Inr (True, pid))"
  shows "start_tunnel w n cf = (say (MsgAlreadyRunning n pid) w1, Inr False)"
  using assms by (simp add: start_tunnel_def)

lemma stop_tunnel_not_running:
  assumes "is_tunnel_running w n = (w1, Inr (False, pid))"
  shows "stop_tunnel w n = (say (MsgNotRunning n) w1, Inr False)"
  using assms by (simp add: stop_tunnel_def)

lemmas world_eval = quiet_world_def cloudflared_demo_def shell_def demo_search_def
  get_pid_file_demo get_log_file_demo

lemmas probe_eval = is_tunnel_running_def check_pid_file_def scan_processes_def run_pgrep_def
  run_ps_def os_kill_def kill_result_def pid_in_range_def Let_def is_oserror_def
  unlink_if_exists_def pgrep_pattern_def py_int_eval scan_matches_def

lemma stale_world_probe:
  "snd (is_tunnel_running stale_world ''demo'') = Inr (True, Some 42)"
  "files (fst (is_tunnel_running stale_world ''demo'')) = Map.empty"
  "files stale_world (get_pid_file ''demo'') = Some ''999''"
  by (simp_all add: stale_world_def world_eval probe_eval)

lemma dead_world_probe:
  "snd (is_tunnel_running dead_world ''demo'') = Inr (False, None)"
  "files (fst (is_tunnel_running dead_world ''demo'')) = Map.empty"
  "files dead_world (get_pid_file ''demo'') = Some ''999''"
  by (simp_all add: dead_world_def world_eval probe_eval)

lemma running_world_probe:
  "snd (is_tunnel_running running_world ''demo'') = Inr (True, Some 42)"
  "files running_world (get_pid_file ''demo'') = Some ''42''"
  "map_of (procs running_world) 42 = Some cloudflared_demo"
  by (simp_all add: running_world_def world_eval probe_eval)

lemma foreign_world_probe:
  "snd (is_tunnel_running foreign_world ''demo'') = Inr (True, Some 42)"
  by (simp_all add: foreign_world_def world_eval probe_eval)

section \<open>Claims about \<^verbatim>\<open>start_tunnel\<close> and \<^verbatim>\<open>stop_tunnel\<close> when nothing is to be done\<close>

text \<open>
  Claim C4, as stated, fails where the running tunnel is found by the scan while a
  stale pid file exists: the start is refused, yet the probe has removed the pid file,
  so the registry record is not left as it was.
\<close>

theorem start_already_running_stale_record:
  "snd (is_tunnel_running stale_world ''demo'') = Inr (True, Some 42)
   \<and> snd (start_tunnel stale_world ''demo'' None) = Inr False
   \<and> files stale_world (get_pid_file ''demo'') = Some ''999''
   \<and> files (fst (start_tunnel stale_world ''demo'' None)) (get_pid_file ''demo'') = None"
proof -
  obtain w1 where p: "is_tunnel_running stale_world ''demo'' = (w1, Inr (True, Some 42))"
    using stale_world_probe(1) by (cases "is_tunnel_running stale_world ''demo''") simp
  then have "files w1 = Map.empty" using stale_world_probe(2) by simp
  with p stale_world_probe show ?thesis by (simp add: start_tunnel_running[OF p])
qed

text \<open>
  Claim C4, amended. When the probe reports tunnel \<open>n\<close> running with identifier
  \<open>pid\<close>, \<^verbatim>\<open>start_tunnel\<close> returns \<^verbatim>\<open>False\<close> and prints the already-running
  message with that identifier, which is the pid of a live process. Nothing is
  spawned, no file is written, no signal other than the null signal is sent and the
  process table is unchanged: the only system calls are the probe's. Every file other
  than the pid file is as before; the pid file is as before too when it names a live
  \<^verbatim>\<open>cloudflared\<close> process that the caller may signal (and then that is the identifier
  reported). Otherwise, that is when the registry holds no verified record
  (\<open>verified_record w n = None\<close>: the record is stale or malformed and the running
  process was found by the scan), the pid file does not exist afterwards: the probe
  has deleted it, and that deletion is the only change to the file system.
\<close>

theorem start_already_running:
  assumes "snd (is_tunnel_running w n) = Inr (True, pid)"
  shows "snd (start_tunnel w n cf) = Inr False
       \<and> (\<exists>p. pid = Some p \<and> alive w p)
       \<and> new_output w (fst (start_tunnel w n cf)) = [MsgAlreadyRunning n pid]
       \<and> procs (fst (start_tunnel w n cf)) = procs w
       \<and> (\<forall>e\<in>set (new_events w (fst (start_tunnel w n cf))). probe_event (get_pid_file n) e)
       \<and> (\<forall>q. q \<noteq> get_pid_file n \<longrightarrow> files (fst (start_tunnel w n cf)) q = files w q)
       \<and> (\<forall>c p pr. files w (get_pid_file n) = Some c \<and> py_int (py_strip c) = Some p
             \<and> pid_in_range p \<and> map_of (procs w) p = Some pr \<and> owned pr
             \<and> contains ''cloudflared'' (comm pr)
             \<longrightarrow> pid = Some p \<and> files (fst (start_tunnel w n cf)) = files w)
       \<and> (verified_record w n = None \<longrightarrow>
             files (fst (start_tunnel w n cf)) (get_pid_file n) = None
           \<and> files (fst (start_tunnel w n cf)) = (files w)(get_pid_file n := None))"
proof -
  obtain w1 where p: "is_tunnel_running w n = (w1, Inr (True, pid))"
    using assms by (cases "is_tunnel_running w n") simp
  note f = is_tunnel_running_frame[OF p]
  note s = start_tunnel_running[OF p, of cf]
  from f(7) obtain es where es: "trace w1 = trace w @ es"
    "\<forall>e\<in>set es. probe_event (get_pid_file n) e" by blast
  have 1: "snd (start_tunnel w n cf) = Inr False" by (simp add: s)
  have 2: "\<exists>p. pid = Some p \<and> alive w p" by (rule is_tunnel_running_running[OF p])
  have 3: "new_output w (fst (start_tunnel w n cf)) = [MsgAlreadyRunning n pid]"
    by (rule new_output_append) (simp add: s f(2))
  have 4: "procs (fst (start_tunnel w n cf)) = procs w" by (simp add: s f(1))
  have "new_events w (fst (start_tunnel w n cf)) = es"
    by (rule new_events_append) (simp add: s es(1))
  with es(2) have 5:
    "\<forall>e\<in>set (new_events w (fst (start_tunnel w n cf))). probe_event (get_pid_file n) e"
    by simp
  have 6: "\<forall>q. q \<noteq> get_pid_file n \<longrightarrow> files (fst (start_tunnel w n cf)) q = files w q"
    using f(6) by (auto simp: s)
  have 7: "\<forall>c p pr. files w (get_pid_file n) = Some c \<and> py_int (py_strip c) = Some p
             \<and> pid_in_range p \<and> map_of (procs w) p = Some pr \<and> owned pr
             \<and> contains ''cloudflared'' (comm pr)
             \<longrightarrow> pid = Some p \<and> files (fst (start_tunnel w n cf)) = files w"
  proof (intro allI impI, elim conjE)
    fix c q pr
    assume a: "files w (get_pid_file n) = Some c" "py_int (py_strip c) = Some q"
      "pid_in_range q" "map_of (procs w) q = Some pr" "owned pr"
      "contains ''cloudflared'' (comm pr)"
    note v = is_tunnel_running_verified[OF a]
    from v(1) p have "pid = Some q" by simp
    moreover from v(2) p have "files (fst (start_tunnel w n cf)) = files w" by (simp add: s)
    ultimately show "pid = Some q \<and> files (fst (start_tunnel w n cf)) = files w" by simp
  qed
  have 8: "verified_record w n = None \<longrightarrow>
             files (fst (start_tunnel w n cf)) (get_pid_file n) = None
           \<and> files (fst (start_tunnel w n cf)) = (files w)(get_pid_file n := None)"
  proof
    assume "verified_record w n = None"
    from is_tunnel_running_unverified[OF p this]
    show "files (fst (start_tunnel w n cf)) (get_pid_file n) = None
           \<and> files (fst (start_tunnel w n cf)) = (files w)(get_pid_file n := None)"
      by (simp add: s)
  qed
  from 1 2 3 4 5 6 7 8 show ?thesis by (intro conjI)
qed

theorem start_already_running_witness:
  "snd (is_tunnel_running running_world ''demo'') = Inr (True, Some 42)
   \<and> snd (start_tunnel running_world ''demo'' None) = Inr False
   \<and> new_output running_world (fst (start_tunnel running_world ''demo'' None))
       = [MsgAlreadyRunning ''demo'' (Some 42)]
   \<and> procs (fst (start_tunnel running_world ''demo'' None)) = procs running_world
   \<and> files (fst (start_tunnel running_world ''demo'' None)) = files running_world
   \<and> snd (is_tunnel_running stale_world ''demo'') = Inr (True, Some 42)
   \<and> verified_record stale_world ''demo'' = None
   \<and> files stale_world (get_pid_file ''demo'') = Some ''999''
   \<and> snd (start_tunnel stale_world ''demo'' None) = Inr False
   \<and> files (fst (start_tunnel stale_world ''demo'' None)) (get_pid_file ''demo'') = None"
proof -
  note t = start_already_running[OF running_world_probe(1), of None]
  note u = start_already_running[OF stale_world_probe(1), of None]
  have v: "files running_world (get_pid_file ''demo'') = Some ''42'' \<and>
      py_int (py_strip ''42'') = Some 42 \<and> pid_in_range 42 \<and>
      map_of (procs running_world) 42 = Some cloudflared_demo \<and> owned cloudflared_demo \<and>
      contains ''cloudflared'' (comm cloudflared_demo)"
    by (simp add: running_world_probe py_int_eval pid_in_range_def cloudflared_demo_def)
  from t have "\<forall>c p pr. files running_world (get_pid_file ''demo'') = Some c \<and>
      py_int (py_strip c) = Some p \<and> pid_in_range p \<and>
      map_of (procs running_world) p = Some pr \<and> owned pr \<and>
      contains ''cloudflared'' (comm pr) \<longrightarrow>
      Some 42 = Some p \<and> files (fst (start_tunnel running_world ''demo'' None)) = files running_world"
    by (elim conjE)
  with v have a: "files (fst (start_tunnel running_world ''demo'' None)) = files running_world"
    by blast
  have n: "verified_record stale_world ''demo'' = None"
    by (simp add: verified_record_def stale_world_def world_eval py_int_eval)
  from u have "verified_record stale_world ''demo'' = None \<longrightarrow>
      files (fst (start_tunnel stale_world ''demo'' None)) (get_pid_file ''demo'') = None
      \<and> files (fst (start_tunnel stale_world ''demo'' None))
          = (files stale_world)(get_pid_file ''demo'' := None)"
    by (elim conjE)
  with n have b:
    "files (fst (start_tunnel stale_world ''demo'' None)) (get_pid_file ''demo'') = None"
    by blast
  from u have c: "snd (start_tunnel stale_world ''demo'' None) = Inr False" by (elim conjE)
  from a b c n t running_world_probe(1) stale_world_probe(1) stale_world_probe(3)
  show ?thesis by simp
qed

text \<open>
  Claim C7, as stated, fails where a stale pid file exists: the stop is refused as
  not running, yet the probe that \<^verbatim>\<open>stop_tunnel\<close> runs first has deleted the pid file.
\<close>

theorem stop_not_running_stale_record:
  "snd (is_tunnel_running dead_world ''demo'') = Inr (False, None)
   \<and> snd (stop_tunnel dead_world ''demo'') = Inr False
   \<and> files dead_world (get_pid_file ''demo'') = Some ''999''
   \<and> files (fst (stop_tunnel dead_world ''demo'')) (get_pid_file ''demo'') = None"
proof -
  obtain w1 where p: "is_tunnel_running dead_world ''demo'' = (w1, Inr (False, None))"
    using dead_world_probe(1) by (cases "is_tunnel_running dead_world ''demo''") simp
  then have "files w1 = Map.empty" using dead_world_probe(2) by simp
  with p dead_world_probe show ?thesis by (simp add: stop_tunnel_not_running[OF p])
qed

text \<open>
  Claim C7, amended. When the probe reports tunnel \<open>n\<close> not running,
  \<^verbatim>\<open>stop_tunnel\<close> returns \<^verbatim>\<open>False\<close> and prints the not-running message; the only
  system calls are the probe's, the process table is unchanged, and the only change
  to the file system is that the tunnel's pid file, if there was one (stale or
  malformed), is gone. With no pid file before, no file is created, modified or
  deleted.
\<close>

theorem stop_not_running:
  assumes "snd (is_tunnel_running w n) = Inr (False, pid)"
  shows "snd (stop_tunnel w n) = Inr False
       \<and> new_output w (fst (stop_tunnel w n)) = [MsgNotRunning n]
       \<and> procs (fst (stop_tunnel w n)) = procs w
       \<and> (\<forall>e\<in>set (new_events w (fst (stop_tunnel w n))). probe_event (get_pid_file n) e)
       \<and> files (fst (stop_tunnel w n)) = (files w)(get_pid_file n := None)
       \<and> (files w (get_pid_file n) = None \<longrightarrow> files (fst (stop_tunnel w n)) = files w)"
proof -
  obtain w1 where p: "is_tunnel_running w n = (w1, Inr (False, pid))"
    using assms by (cases "is_tunnel_running w n") simp
  note f = is_tunnel_running_frame[OF p]
  note g = is_tunnel_running_not_running[OF p]
  note s = stop_tunnel_not_running[OF p]
  from f(7) obtain es where es: "trace w1 = trace w @ es"
    "\<forall>e\<in>set es. probe_event (get_pid_file n) e" by blast
  have 1: "snd (stop_tunnel w n) = Inr False" by (simp add: s)
  have 2: "new_output w (fst (stop_tunnel w n)) = [MsgNotRunning n]"
    by (rule new_output_append) (simp add: s f(2))
  have 3: "procs (fst (stop_tunnel w n)) = procs w" by (simp add: s f(1))
  have "new_events w (fst (stop_tunnel w n)) = es"
    by (rule new_events_append) (simp add: s es(1))
  with es(2) have 4:
    "\<forall>e\<in>set (new_events w (fst (stop_tunnel w n))). probe_event (get_pid_file n) e"
    by simp
  have 5: "files (fst (stop_tunnel w n)) = (files w)(get_pid_file n := None)"
    by (simp add: s g(2))
  have 6: "files w (get_pid_file n) = None \<longrightarrow> files (fst (stop_tunnel w n)) = files w"
    unfolding 5 by (simp add: fun_upd_idem)
  from 1 2 3 4 5 6 show ?thesis by (intro conjI)
qed

theorem stop_not_running_witness:
  "snd (is_tunnel_running quiet_world ''demo'') = Inr (False, None)
   \<and> files quiet_world (get_pid_file ''demo'') = None
   \<and> snd (stop_tunnel quiet_world ''demo'') = Inr False
   \<and> new_output quiet_world (fst (stop_tunnel quiet_world ''demo'')) = [MsgNotRunning ''demo'']
   \<and> files (fst (stop_tunnel quiet_world ''demo'')) = files quiet_world"
proof -
  have h: "snd (is_tunnel_running quiet_world ''demo'') = Inr (False, None)"
    by (simp add: world_eval probe_eval)
  have e: "files quiet_world (get_pid_file ''demo'') = None" by (simp add: world_eval)
  from stop_not_running[OF h] h e show ?thesis by (simp add: fun_upd_idem)
qed

section \<open>The stop sequence\<close>

lemma os_kill_proj [simp]:
  "files (fst (os_kill w p sg)) = files w" "out (fst (os_kill w p sg)) = out w"
  "home (fst (os_kill w p sg)) = home w" "ere_search (fst (os_kill w p sg)) = ere_search w"
  "launch (fst (os_kill w p sg)) = launch w"
  "trace (fst (os_kill w p sg)) = trace w @ [EvKill p sg (kill_result w p)]"
  "snd (os_kill w p sg) = kill_result w p"
  by (simp_all add: os_kill_def Let_def split: option.split)

lemma time_sleep_proj [simp]:
  "files (time_sleep k w) = files w" "out (time_sleep k w) = out w"
  "home (time_sleep k w) = home w" "ere_search (time_sleep k w) = ere_search w"
  "launch (time_sleep k w) = launch w"
  "trace (time_sleep k w) = trace w @ [EvSleep k]"
  by (simp_all add: time_sleep_def)

lemma unlink_if_exists_proj [simp]:
  "files (unlink_if_exists f w) = (files w)(f := None)" "out (unlink_if_exists f w) = out w"
  "procs (unlink_if_exists f w) = procs w"
  "trace (unlink_if_exists f w) = trace w @ (if files w f \<noteq> None then [EvUnlink f] else [])"
  by (auto simp: unlink_if_exists_def)

lemma poll_calls_Suc: "poll_calls p (Suc k) = EvKill p SIG0 None # EvSleep 1 # poll_calls p k"
  by (simp add: poll_calls_def)

lemma poll_calls_0: "poll_calls p 0 = []"
  by (simp add: poll_calls_def)

lemma poll_loop_step:
  "poll_loop w p (Suc n) =
     (case kill_result w p of
        None \<Rightarrow> poll_loop (time_sleep 1 (fst (os_kill w p SIG0))) p n
      | Some e \<Rightarrow> if is_oserror e then (fst (os_kill w p SIG0), Broke)
                  else (fst (os_kill w p SIG0), Raised e))"
proof (cases "os_kill w p SIG0")
  case (Pair a b)
  then have "b = kill_result w p" using os_kill_proj(7)[of w p SIG0] by simp
  with Pair show ?thesis by (simp split: option.split)
qed

lemma poll_loop_shape:
  assumes "pid_in_range p"
  shows "files (fst (poll_loop w p n)) = files w \<and> out (fst (poll_loop w p n)) = out w \<and>
    (\<exists>k. (snd (poll_loop w p n) = Exhausted \<and> k = n \<and>
            trace (fst (poll_loop w p n)) = trace w @ poll_calls p k)
       \<or> (\<exists>e. snd (poll_loop w p n) = Broke \<and> k < n \<and>
            trace (fst (poll_loop w p n)) = trace w @ poll_calls p k @ [EvKill p SIG0 (Some e)]))"
proof (induction n arbitrary: w)
  case 0
  show ?case by (simp add: poll_calls_0)
next
  case (Suc n)
  show ?case
  proof (cases "kill_result w p")
    case None
    let ?w = "time_sleep 1 (fst (os_kill w p SIG0))"
    have st: "poll_loop w p (Suc n) = poll_loop ?w p n" by (simp add: poll_loop_step None del: poll_loop.simps)
    have tr: "trace ?w = trace w @ [EvKill p SIG0 None, EvSleep 1]" by (simp add: None)
    from Suc.IH[of ?w] obtain k where
      f: "files (fst (poll_loop ?w p n)) = files w" "out (fst (poll_loop ?w p n)) = out w" and
      k: "(snd (poll_loop ?w p n) = Exhausted \<and> k = n \<and>
            trace (fst (poll_loop ?w p n)) = trace ?w @ poll_calls p k)
       \<or> (\<exists>e. snd (poll_loop ?w p n) = Broke \<and> k < n \<and>
            trace (fst (poll_loop ?w p n)) = trace ?w @ poll_calls p k @ [EvKill p SIG0 (Some e)])"
      by auto
    from k have "(snd (poll_loop w p (Suc n)) = Exhausted \<and> Suc k = Suc n \<and>
            trace (fst (poll_loop w p (Suc n))) = trace w @ poll_calls p (Suc k))
       \<or> (\<exists>e. snd (poll_loop w p (Suc n)) = Broke \<and> Suc k < Suc n \<and>
            trace (fst (poll_loop w p (Suc n))) =
              trace w @ poll_calls p (Suc k) @ [EvKill p SIG0 (Some e)])"
      unfolding st tr poll_calls_Suc by auto
    with f show ?thesis unfolding st by blast
  next
    case (Some e)
    with assms have os: "is_oserror e" using kill_result_cases[of w p e] by auto
    have st: "poll_loop w p (Suc n) = (fst (os_kill w p SIG0), Broke)"
      by (simp add: poll_loop_step Some os del: poll_loop.simps)
    have "(\<exists>e. snd (poll_loop w p (Suc n)) = Broke \<and> 0 < Suc n \<and>
            trace (fst (poll_loop w p (Suc n))) = trace w @ poll_calls p 0 @ [EvKill p SIG0 (Some e)])"
      unfolding st by (simp add: poll_calls_0 Some)
    then show ?thesis unfolding st by (simp del: poll_loop.simps) blast
  qed
qed

lemma force_kill_proj [simp]:
  "files (force_kill w p) = files w" "out (force_kill w p) = out w"
  "trace (force_kill w p) =
     trace w @ EvKill p SIGKILL (kill_result w p) # (if kill_result w p = None then [EvSleep 1] else [])"
proof -
  obtain a b where k: "os_kill w p SIGKILL = (a, b)" by (rule prod.exhaust)
  then have b: "b = kill_result w p" and a: "a = fst (os_kill w p SIGKILL)"
    using os_kill_proj(7)[of w p SIGKILL] by simp_all
  have e: "force_kill w p = (if kill_result w p = None then time_sleep 1 a else a)"
    unfolding force_kill_def k b[symmetric] by (simp split: option.split)
  show "files (force_kill w p) = files w" by (simp add: e a)
  show "out (force_kill w p) = out w" by (simp add: e a)
  show "trace (force_kill w p) =
     trace w @ EvKill p SIGKILL (kill_result w p) # (if kill_result w p = None then [EvSleep 1] else [])"
    by (simp add: e a)
qed

lemma terminate_refused:
  assumes "kill_result w p = Some e"
  shows "terminate w n (Some p) = stop_handler (fst (os_kill w p SIGTERM)) n e"
proof -
  obtain a b where k: "os_kill w p SIGTERM = (a, b)" by (rule prod.exhaust)
  then have "b = kill_result w p" using os_kill_proj(7)[of w p SIGTERM] by simp
  with k assms show ?thesis by (simp add: terminate_def)
qed

lemma terminate_delivered_eq:
  assumes "kill_result w p = None"
  shows "terminate w n (Some p) =
     (let R = poll_loop (fst (os_kill w p SIGTERM)) p 10
      in case snd R of
           Raised e \<Rightarrow> stop_handler (fst R) n e
         | Broke \<Rightarrow> (say (MsgStopped n (Some p)) (unlink_if_exists (get_pid_file n) (fst R)),
                      Inr True)
         | Exhausted \<Rightarrow>
             (say (MsgStopped n (Some p))
                (unlink_if_exists (get_pid_file n) (force_kill (fst R) p)), Inr True))"
proof -
  obtain a b where k: "os_kill w p SIGTERM = (a, b)" by (rule prod.exhaust)
  then have b: "b = None" using os_kill_proj(7)[of w p SIGTERM] assms by simp
  obtain a2 oc where l: "poll_loop a p 10 = (a2, oc)" by (rule prod.exhaust)
  show ?thesis unfolding terminate_def
    by (cases oc) (simp_all add: k b l Let_def del: poll_loop.simps)
qed

lemma terminate_delivered:
  assumes "kill_result w p = None"
  shows "snd (terminate w n (Some p)) = Inr True
       \<and> files (fst (terminate w n (Some p))) = (files w)(get_pid_file n := None)
       \<and> out (fst (terminate w n (Some p))) = out w @ [MsgStopped n (Some p)]
       \<and> (\<exists>k r. k \<le> 10 \<and> (k < 10 \<longrightarrow> r \<noteq> None)
             \<and> trace (fst (terminate w n (Some p))) =
                 trace w @ stop_calls p k r
                 @ (if files w (get_pid_file n) \<noteq> None then [EvUnlink (get_pid_file n)] else []))"
proof -
  let ?w1 = "fst (os_kill w p SIGTERM)"
  let ?R = "poll_loop ?w1 p 10"
  let ?pf = "get_pid_file n"
  let ?u = "if files w ?pf \<noteq> None then [EvUnlink ?pf] else []"
  from assms have rg: "pid_in_range p" by (simp add: kill_result_None)
  have t1: "trace ?w1 = trace w @ [EvKill p SIGTERM None]" by (simp add: assms)
  note e = terminate_delivered_eq[OF assms, of n]
  from poll_loop_shape[OF rg, of ?w1 10] obtain k where
    f: "files (fst ?R) = files w" "out (fst ?R) = out w" and
    k: "(snd ?R = Exhausted \<and> k = 10 \<and> trace (fst ?R) = trace ?w1 @ poll_calls p k)
       \<or> (\<exists>e. snd ?R = Broke \<and> k < 10 \<and>
            trace (fst ?R) = trace ?w1 @ poll_calls p k @ [EvKill p SIG0 (Some e)])"
    by auto
  from k show ?thesis
  proof
    assume x: "snd ?R = Exhausted \<and> k = 10 \<and> trace (fst ?R) = trace ?w1 @ poll_calls p k"
    let ?r = "kill_result (fst ?R) p"
    have tr: "trace (fst (terminate w n (Some p))) = trace w @ stop_calls p 10 ?r @ ?u"
      unfolding e using x f by (simp add: Let_def stop_calls_def assms del: poll_loop.simps)
    have "snd (terminate w n (Some p)) = Inr True"
      "files (fst (terminate w n (Some p))) = (files w)(?pf := None)"
      "out (fst (terminate w n (Some p))) = out w @ [MsgStopped n (Some p)]"
      unfolding e using x f by (simp_all add: Let_def assms del: poll_loop.simps)
    moreover have "\<exists>k r. k \<le> 10 \<and> (k < 10 \<longrightarrow> r \<noteq> None)
         \<and> trace (fst (terminate w n (Some p))) = trace w @ stop_calls p k r @ ?u"
      using tr by (intro exI[of _ 10] exI[of _ ?r]) simp
    ultimately show ?thesis by (intro conjI)
  next
    assume "\<exists>e. snd ?R = Broke \<and> k < 10 \<and>
            trace (fst ?R) = trace ?w1 @ poll_calls p k @ [EvKill p SIG0 (Some e)]"
    then obtain x where x: "snd ?R = Broke" "k < 10"
      "trace (fst ?R) = trace ?w1 @ poll_calls p k @ [EvKill p SIG0 (Some x)]" by blast
    have tr: "trace (fst (terminate w n (Some p))) = trace w @ stop_calls p k (Some x) @ ?u"
      unfolding e using x f by (simp add: Let_def stop_calls_def assms del: poll_loop.simps)
    have "snd (terminate w n (Some p)) = Inr True"
      "files (fst (terminate w n (Some p))) = (files w)(?pf := None)"
      "out (fst (terminate w n (Some p))) = out w @ [MsgStopped n (Some p)]"
      unfolding e using x f by (simp_all add: Let_def assms del: poll_loop.simps)
    moreover have "\<exists>k r. k \<le> 10 \<and> (k < 10 \<longrightarrow> r \<noteq> None)
         \<and> trace (fst (terminate w n (Some p))) = trace w @ stop_calls p k r @ ?u"
      using tr x(2) by (intro exI[of _ k] exI[of _ "Some x"]) simp
    ultimately show ?thesis by (intro conjI)
  qed
qed

lemma terminate_gone:
  assumes "kill_result w p = Some ProcessLookupError"
  shows "snd (terminate w n (Some p)) = Inr True
       \<and> files (fst (terminate w n (Some p))) = (files w)(get_pid_file n := None)
       \<and> out (fst (terminate w n (Some p))) = out w @ [MsgStoppedGone n]
       \<and> trace (fst (terminate w n (Some p))) =
           trace w @ EvKill p SIGTERM (Some ProcessLookupError)
           # (if files w (get_pid_file n) \<noteq> None then [EvUnlink (get_pid_file n)] else [])"
  by (simp add: terminate_refused[OF assms] stop_handler_def assms)

lemma terminate_error:
  assumes "kill_result w p = Some e" and "e \<noteq> ProcessLookupError"
  shows "snd (terminate w n (Some p)) = Inr False
       \<and> files (fst (terminate w n (Some p))) = files w
       \<and> procs (fst (terminate w n (Some p))) = procs w
       \<and> out (fst (terminate w n (Some p))) = out w @ [MsgErrorStopping e]
       \<and> trace (fst (terminate w n (Some p))) = trace w @ [EvKill p SIGTERM (Some e)]"
  by (simp add: terminate_refused[OF assms(1)] stop_handler_def assms os_kill_fail[OF assms(1)])

section \<open>Claims about stopping a running tunnel\<close>

lemma kill_result_cong: "procs w1 = procs w \<Longrightarrow> kill_result w1 p = kill_result w p"
  by (simp add: kill_result_def)

lemma stop_tunnel_running:
  assumes "is_tunnel_running w n = (w1, Inr (True, pid))"
  shows "stop_tunnel w n = terminate w1 n pid"
  using assms by (simp add: stop_tunnel_def)

lemma is_tunnel_running_record_or_scan:
  assumes "is_tunnel_running w n = (w1, Inr (True, Some p))"
  shows "kill_result w p = None \<or> files w1 (get_pid_file n) = None"
proof -
  obtain wc rc where c: "check_pid_file w (get_pid_file n) = (wc, rc)" by (rule prod.exhaust)
  note f = check_pid_file_frame[OF c]
  note E = assms[unfolded is_tunnel_running_eq[OF c]]
  show ?thesis
  proof (cases rc)
    case (Inl x)
    with E show ?thesis by simp
  next
    case (Inr o1)
    show ?thesis
    proof (cases o1)
      case None
      with Inr E have "w1 = log_event (EvRun [''pgrep'', ''-f'', pgrep_pattern n]) wc" by simp
      with f(7) Inr None show ?thesis by simp
    next
      case (Some q)
      with Inr E have "q = p" by simp
      with f(8)[of p] Inr Some show ?thesis by simp
    qed
  qed
qed

text \<open>
  Claim C2, amended. Let the probe report tunnel \<open>n\<close> running with identifier \<open>p\<close>.
  In every case the pid file is absent after \<^verbatim>\<open>stop_tunnel\<close>. When the caller may
  signal \<open>p\<close> (\<^verbatim>\<open>os.kill\<close> succeeds), \<^verbatim>\<open>stop_tunnel\<close> returns \<^verbatim>\<open>True\<close>, prints the
  stopped message with \<open>p\<close>, and its system calls after the probe are exactly a stop
  sequence (\<open>stop_calls\<close>): \<^verbatim>\<open>SIGTERM\<close> delivered, \<open>k \<le> 10\<close> rounds of null signal and a
  sleep of one time unit, then either (\<open>k < 10\<close>) an existence check that fails, which
  ends the sequence as a success, or (\<open>k = 10\<close>) \<^verbatim>\<open>SIGKILL\<close>, followed by one more sleep
  of one time unit when it was delivered; last the pid file is unlinked if it is
  there. When \<^verbatim>\<open>os.kill\<close> refuses \<^verbatim>\<open>SIGTERM\<close> with an error \<open>e\<close> (the process belongs to
  another user), \<^verbatim>\<open>stop_tunnel\<close> returns \<^verbatim>\<open>False\<close>, prints the error, and makes no
  further system call. When \<open>p\<close> is already gone at the moment \<^verbatim>\<open>SIGTERM\<close> is sent (in
  any world \<open>v\<close>), the sequence ends at once as a success with the pid file cleared.
\<close>

theorem stop_running:
  assumes "snd (is_tunnel_running w n) = Inr (True, Some p)"
  shows "files (fst (stop_tunnel w n)) (get_pid_file n) = None
       \<and> (kill_result w p = None \<longrightarrow>
            snd (stop_tunnel w n) = Inr True
          \<and> new_output w (fst (stop_tunnel w n)) = [MsgStopped n (Some p)]
          \<and> (\<exists>k r. k \<le> 10 \<and> (k < 10 \<longrightarrow> r \<noteq> None)
               \<and> new_events (fst (is_tunnel_running w n)) (fst (stop_tunnel w n)) =
                   stop_calls p k r
                   @ (if files (fst (is_tunnel_running w n)) (get_pid_file n) \<noteq> None
                      then [EvUnlink (get_pid_file n)] else [])))
       \<and> (\<forall>e. kill_result w p = Some e \<longrightarrow>
            e \<noteq> ProcessLookupError
          \<and> snd (stop_tunnel w n) = Inr False
          \<and> new_output w (fst (stop_tunnel w n)) = [MsgErrorStopping e]
          \<and> new_events (fst (is_tunnel_running w n)) (fst (stop_tunnel w n)) =
              [EvKill p SIGTERM (Some e)]
          \<and> procs (fst (stop_tunnel w n)) = procs w)
       \<and> (\<forall>v. kill_result v p = Some ProcessLookupError \<longrightarrow>
            snd (terminate v n (Some p)) = Inr True
          \<and> files (fst (terminate v n (Some p))) (get_pid_file n) = None)"
proof -
  let ?pf = "get_pid_file n"
  obtain w1 where pr: "is_tunnel_running w n = (w1, Inr (True, Some p))"
    using assms by (cases "is_tunnel_running w n") simp
  note f = is_tunnel_running_frame[OF pr]
  note s = stop_tunnel_running[OF pr]
  have kr: "kill_result w1 p = kill_result w p" by (rule kill_result_cong[OF f(1)])
  from is_tunnel_running_running[OF pr] have al: "alive w p" by simp
  have B: "kill_result w p = None \<longrightarrow>
            snd (stop_tunnel w n) = Inr True
          \<and> new_output w (fst (stop_tunnel w n)) = [MsgStopped n (Some p)]
          \<and> (\<exists>k r. k \<le> 10 \<and> (k < 10 \<longrightarrow> r \<noteq> None)
               \<and> new_events (fst (is_tunnel_running w n)) (fst (stop_tunnel w n)) =
                   stop_calls p k r
                   @ (if files (fst (is_tunnel_running w n)) ?pf \<noteq> None
                      then [EvUnlink ?pf] else []))"
  proof
    assume "kill_result w p = None"
    then have k1: "kill_result w1 p = None" by (simp add: kr)
    note t = terminate_delivered[OF k1, of n]
    from t obtain k r where k: "k \<le> 10" "k < 10 \<longrightarrow> r \<noteq> None"
      "trace (fst (terminate w1 n (Some p))) = trace w1 @ stop_calls p k r
         @ (if files w1 ?pf \<noteq> None then [EvUnlink ?pf] else [])" by blast
    have "new_events w1 (fst (terminate w1 n (Some p))) = stop_calls p k r
         @ (if files w1 ?pf \<noteq> None then [EvUnlink ?pf] else [])"
      by (rule new_events_append) (rule k(3))
    with k(1,2) have "\<exists>k r. k \<le> 10 \<and> (k < 10 \<longrightarrow> r \<noteq> None)
               \<and> new_events w1 (fst (terminate w1 n (Some p))) = stop_calls p k r
                   @ (if files w1 ?pf \<noteq> None then [EvUnlink ?pf] else [])" by blast
    moreover have "new_output w (fst (terminate w1 n (Some p))) = [MsgStopped n (Some p)]"
      by (rule new_output_append) (simp add: t f(2))
    moreover have "snd (terminate w1 n (Some p)) = Inr True" by (simp add: t)
    ultimately show "snd (stop_tunnel w n) = Inr True
          \<and> new_output w (fst (stop_tunnel w n)) = [MsgStopped n (Some p)]
          \<and> (\<exists>k r. k \<le> 10 \<and> (k < 10 \<longrightarrow> r \<noteq> None)
               \<and> new_events (fst (is_tunnel_running w n)) (fst (stop_tunnel w n)) =
                   stop_calls p k r
                   @ (if files (fst (is_tunnel_running w n)) ?pf \<noteq> None
                      then [EvUnlink ?pf] else []))"
      unfolding s pr by simp
  qed
  have C: "\<forall>e. kill_result w p = Some e \<longrightarrow>
            e \<noteq> ProcessLookupError
          \<and> snd (stop_tunnel w n) = Inr False
          \<and> new_output w (fst (stop_tunnel w n)) = [MsgErrorStopping e]
          \<and> new_events (fst (is_tunnel_running w n)) (fst (stop_tunnel w n)) =
              [EvKill p SIGTERM (Some e)]
          \<and> procs (fst (stop_tunnel w n)) = procs w"
  proof (intro allI impI)
    fix e assume a: "kill_result w p = Some e"
    with al have ne: "e \<noteq> ProcessLookupError"
      by (auto simp: kill_result_def alive_def split: if_splits option.splits)
    from a have k1: "kill_result w1 p = Some e" by (simp add: kr)
    note t = terminate_error[OF k1 ne, of n]
    have "new_events w1 (fst (terminate w1 n (Some p))) = [EvKill p SIGTERM (Some e)]"
      by (rule new_events_append) (simp add: t)
    moreover have "new_output w (fst (terminate w1 n (Some p))) = [MsgErrorStopping e]"
      by (rule new_output_append) (simp add: t f(2))
    ultimately show "e \<noteq> ProcessLookupError
          \<and> snd (stop_tunnel w n) = Inr False
          \<and> new_output w (fst (stop_tunnel w n)) = [MsgErrorStopping e]
          \<and> new_events (fst (is_tunnel_running w n)) (fst (stop_tunnel w n)) =
              [EvKill p SIGTERM (Some e)]
          \<and> procs (fst (stop_tunnel w n)) = procs w"
      unfolding s pr using ne t f(1) by simp
  qed
  have A: "files (fst (stop_tunnel w n)) ?pf = None"
  proof (cases "kill_result w p")
    case None
    then have "kill_result w1 p = None" by (simp add: kr)
    from terminate_delivered[OF this, of n] show ?thesis unfolding s by simp
  next
    case (Some e)
    with is_tunnel_running_record_or_scan[OF pr] have g: "files w1 ?pf = None" by simp
    from Some C have ne: "e \<noteq> ProcessLookupError" by blast
    from Some have "kill_result w1 p = Some e" by (simp add: kr)
    from terminate_error[OF this ne, of n] g show ?thesis unfolding s by simp
  qed
  have D: "\<forall>v. kill_result v p = Some ProcessLookupError \<longrightarrow>
            snd (terminate v n (Some p)) = Inr True
          \<and> files (fst (terminate v n (Some p))) ?pf = None"
  proof (intro allI impI)
    fix v assume "kill_result v p = Some ProcessLookupError"
    from terminate_gone[OF this, of n]
    show "snd (terminate v n (Some p)) = Inr True
          \<and> files (fst (terminate v n (Some p))) ?pf = None" by simp
  qed
  from A B C D show ?thesis by (intro conjI)
qed

lemma example_kill_results:
  "kill_result running_world 42 = None"
  "kill_result foreign_world 42 = Some PermissionError"
  "kill_result quiet_world 42 = Some ProcessLookupError"
  by (simp_all add: kill_result_def pid_in_range_def running_world_def foreign_world_def
      world_eval)

theorem stop_running_witness:
  "snd (is_tunnel_running running_world ''demo'') = Inr (True, Some 42)
   \<and> kill_result running_world 42 = None
   \<and> snd (stop_tunnel running_world ''demo'') = Inr True
   \<and> files (fst (stop_tunnel running_world ''demo'')) (get_pid_file ''demo'') = None
   \<and> new_output running_world (fst (stop_tunnel running_world ''demo''))
       = [MsgStopped ''demo'' (Some 42)]
   \<and> snd (is_tunnel_running foreign_world ''demo'') = Inr (True, Some 42)
   \<and> kill_result foreign_world 42 = Some PermissionError
   \<and> snd (stop_tunnel foreign_world ''demo'') = Inr False
   \<and> new_output foreign_world (fst (stop_tunnel foreign_world ''demo''))
       = [MsgErrorStopping PermissionError]
   \<and> kill_result quiet_world 42 = Some ProcessLookupError
   \<and> snd (terminate quiet_world ''demo'' (Some 42)) = Inr True"
proof -
  note a = stop_running[OF running_world_probe(1)]
  note b = stop_running[OF foreign_world_probe(1)]
  from a example_kill_results(1) have
    1: "snd (stop_tunnel running_world ''demo'') = Inr True
      \<and> files (fst (stop_tunnel running_world ''demo'')) (get_pid_file ''demo'') = None
      \<and> new_output running_world (fst (stop_tunnel running_world ''demo''))
          = [MsgStopped ''demo'' (Some 42)]" by blast
  from b example_kill_results(2) have
    2: "snd (stop_tunnel foreign_world ''demo'') = Inr False
      \<and> new_output foreign_world (fst (stop_tunnel foreign_world ''demo''))
          = [MsgErrorStopping PermissionError]" by blast
  from a example_kill_results(3) have
    3: "snd (terminate quiet_world ''demo'' (Some 42)) = Inr True" by blast
  from 1 2 3 running_world_probe(1) foreign_world_probe(1) example_kill_results
  show ?thesis by simp
qed

text \<open>
  Claim C2, as stated, fails where the running process found by the scan belongs to
  another user: \<^verbatim>\<open>SIGTERM\<close> is refused, \<^verbatim>\<open>stop_tunnel\<close> returns \<^verbatim>\<open>False\<close> after that
  one call, and the process is still alive with no forced termination sent.
\<close>

theorem stop_refused_no_escalation:
  "snd (is_tunnel_running foreign_world ''demo'') = Inr (True, Some 42)
   \<and> snd (stop_tunnel foreign_world ''demo'') = Inr False
   \<and> new_events (fst (is_tunnel_running foreign_world ''demo''))
        (fst (stop_tunnel foreign_world ''demo'')) = [EvKill 42 SIGTERM (Some PermissionError)]
   \<and> alive (fst (stop_tunnel foreign_world ''demo'')) 42"
proof -
  obtain w1 where p: "is_tunnel_running foreign_world ''demo'' = (w1, Inr (True, Some 42))"
    using foreign_world_probe(1) by (cases "is_tunnel_running foreign_world ''demo''") simp
  note f = is_tunnel_running_frame[OF p]
  have k: "kill_result w1 42 = Some PermissionError"
    using kill_result_cong[OF f(1), of 42] example_kill_results(2) by simp
  note t = terminate_error[OF k, of "''demo''"]
  have n: "new_events w1 (fst (terminate w1 ''demo'' (Some 42))) =
      [EvKill 42 SIGTERM (Some PermissionError)]"
    by (rule new_events_append) (simp add: t)
  have "alive foreign_world 42" by (simp add: alive_def foreign_world_def world_eval)
  then have "alive (fst (terminate w1 ''demo'' (Some 42))) 42"
    using t f(1) by (simp add: alive_def)
  with n t show ?thesis unfolding stop_tunnel_running[OF p] p by simp
qed

section \<open>Claims about \<^verbatim>\<open>tail_logs\<close>\<close>

lemma get_log_file_nonempty: "get_log_file n \<noteq> []"
  by (simp add: get_log_file_def path_join_def pid_dir_def)

lemma last_lines_suffix:
  "suffix (last_lines k ls) ls" "length (last_lines k ls) = min k (length ls)"
  by (simp_all add: last_lines_def suffix_drop)

text \<open>
  Claim C9. \<^verbatim>\<open>tail_logs\<close> never changes a file or the process table. When the
  tunnel's log file does not exist (never started, or removed) it prints the
  no-log-file message and runs nothing. When it exists, it runs
  \<^verbatim>\<open>tail -n <lines> <log file>\<close>, which shows the last lines of the file: a suffix of
  the file's lines, \<open>lines\<close> of them (all of them if the file has fewer; \<^verbatim>\<open>tail\<close> reads
  a negative count as its absolute value).
\<close>

theorem tail_logs_passive_view:
  "files (tail_logs w n k) = files w \<and> procs (tail_logs w n k) = procs w
   \<and> (files w (get_log_file n) = None \<longrightarrow>
        new_output w (tail_logs w n k) = [MsgNoLogFile n]
      \<and> new_events w (tail_logs w n k) = [])
   \<and> (\<forall>c. files w (get_log_file n) = Some c \<longrightarrow>
        new_events w (tail_logs w n k) = [EvRun [''tail'', ''-n'', py_str k, get_log_file n]]
      \<and> new_output w (tail_logs w n k)
          = [MsgTailOutput (last_lines (nat \<bar>k\<bar>) (text_lines [] c))]
      \<and> suffix (last_lines (nat \<bar>k\<bar>) (text_lines [] c)) (text_lines [] c)
      \<and> length (last_lines (nat \<bar>k\<bar>) (text_lines [] c))
          = min (nat \<bar>k\<bar>) (length (text_lines [] c)))"
proof -
  have 1: "files (tail_logs w n k) = files w" "procs (tail_logs w n k) = procs w"
    by (simp_all add: tail_logs_def run_tail_def Let_def)
  have 2: "files w (get_log_file n) = None \<longrightarrow>
        new_output w (tail_logs w n k) = [MsgNoLogFile n]
      \<and> new_events w (tail_logs w n k) = []"
    by (simp add: tail_logs_def path_exists_def get_log_file_nonempty new_output_def
        new_events_def)
  have 3: "\<forall>c. files w (get_log_file n) = Some c \<longrightarrow>
        new_events w (tail_logs w n k) = [EvRun [''tail'', ''-n'', py_str k, get_log_file n]]
      \<and> new_output w (tail_logs w n k)
          = [MsgTailOutput (last_lines (nat \<bar>k\<bar>) (text_lines [] c))]
      \<and> suffix (last_lines (nat \<bar>k\<bar>) (text_lines [] c)) (text_lines [] c)
      \<and> length (last_lines (nat \<bar>k\<bar>) (text_lines [] c))
          = min (nat \<bar>k\<bar>) (length (text_lines [] c))"
    by (simp add: tail_logs_def path_exists_def run_tail_def new_output_def new_events_def
        last_lines_suffix)
  from 1 2 3 show ?thesis by (intro conjI)
qed

theorem tail_logs_passive_view_witness:
  "files quiet_world (get_log_file ''demo'') = None
   \<and> new_output quiet_world (tail_logs quiet_world ''demo'' 2) = [MsgNoLogFile ''demo'']
   \<and> files logged_world (get_log_file ''demo'')
       = Some (''one'' @ [CHR 0x0A] @ ''two'' @ [CHR 0x0A] @ ''three'' @ [CHR 0x0A])
   \<and> new_output logged_world (tail_logs logged_world ''demo'' 2)
       = [MsgTailOutput [''two'', ''three'']]
   \<and> files (tail_logs logged_world ''demo'' 2) = files logged_world"
proof -
  have a: "files quiet_world (get_log_file ''demo'') = None" by (simp add: world_eval)
  have b: "files logged_world (get_log_file ''demo'')
       = Some (''one'' @ [CHR 0x0A] @ ''two'' @ [CHR 0x0A] @ ''three'' @ [CHR 0x0A])"
    by (simp add: logged_world_def world_eval)
  have c: "last_lines (nat \<bar>2\<bar>)
      (text_lines [] (''one'' @ [CHR 0x0A] @ ''two'' @ [CHR 0x0A] @ ''three'' @ [CHR 0x0A]))
      = [''two'', ''three'']"
    by (simp add: last_lines_def)
  from tail_logs_passive_view[of quiet_world "''demo''" 2]
    tail_logs_passive_view[of logged_world "''demo''" 2] a b c
  show ?thesis by simp
qed

section \<open>Spawning\<close>

lemma map_of_aged_fresh:
  assumes "pid \<notin> fst ` set xs"
  shows "map_of (List.map_filter (\<lambda>(q, p). map_option (Pair q) (g p)) (xs @ [(pid, np)])) pid
         = g np"
  using assms
proof (induction xs)
  case Nil
  show ?case by (cases "g np") (simp_all add: List.map_filter_simps)
next
  case (Cons x xs)
  obtain q p where x: "x = (q, p)" by (rule prod.exhaust)
  with Cons.prems have ne: "q \<noteq> pid" and r: "pid \<notin> fst ` set xs" by auto
  from Cons.IH[OF r] ne show ?case
    by (cases "g p") (simp_all add: x List.map_filter_simps)
qed

lemma age_None: "age k p = None \<longleftrightarrow> (\<exists>t. ttl p = Some t \<and> t \<le> k)"
  by (auto simp: age_def split: option.splits)

lemma popen_launched:
  assumes "launch w cmd = Some (pid, t, d)"
  shows "snd (popen w cmd lf) = Inr pid"
    "files (fst (popen w cmd lf)) = files w" "out (fst (popen w cmd lf)) = out w"
    "trace (fst (popen w cmd lf)) = trace w @ [EvPopen cmd lf True True]"
    "alive (time_sleep 2 (write_file f s (fst (popen w cmd lf)))) pid = settles t"
proof -
  let ?np = "\<lparr>comm = hd cmd, args = join_args cmd, owned = True, ttl = t, term_delay = d\<rparr>"
  let ?xs = "filter (\<lambda>(q, p). q \<noteq> pid) (procs w)"
  have e: "popen w cmd lf =
     ((log_event (EvPopen cmd lf True True) w)\<lparr>procs := ?xs @ [(pid, ?np)]\<rparr>, Inr pid)"
    using assms by (simp add: popen_def Let_def)
  show "snd (popen w cmd lf) = Inr pid" "files (fst (popen w cmd lf)) = files w"
    "out (fst (popen w cmd lf)) = out w"
    "trace (fst (popen w cmd lf)) = trace w @ [EvPopen cmd lf True True]"
    by (simp_all add: e)
  have fr: "pid \<notin> fst ` set ?xs" by auto
  have "map_of (procs (time_sleep 2 (write_file f s (fst (popen w cmd lf))))) pid = age 2 ?np"
    unfolding e by (simp add: time_sleep_def map_of_aged_fresh[OF fr])
  then show "alive (time_sleep 2 (write_file f s (fst (popen w cmd lf)))) pid = settles t"
    by (cases t) (simp_all add: alive_def age_def settles_def)
qed

lemma popen_failed:
  assumes "launch w cmd = None"
  shows "popen w cmd lf = (log_event (EvPopen cmd lf True True) w, Inl FileNotFoundError)"
  using assms by (simp add: popen_def Let_def)

lemma resolve_config_proj [simp]:
  "files (fst (resolve_config w n cf)) = files w" "procs (fst (resolve_config w n cf)) = procs w"
  "launch (fst (resolve_config w n cf)) = launch w"
  "trace (fst (resolve_config w n cf)) = trace w"
  by (simp_all add: resolve_config_def Let_def)

lemma start_tunnel_fresh:
  assumes "is_tunnel_running w n = (w1, Inr (False, x))"
  shows "start_tunnel w n cf =
     spawn_and_settle (fst (resolve_config w1 n cf)) n (start_command w1 n cf)"
  using assms by (simp add: start_tunnel_def start_command_def split: prod.split)

lemma spawn_and_settle_launched:
  assumes "launch w cmd = Some (pid, t, d)"
  shows "snd (spawn_and_settle w n cmd) = Inr (settles t)"
    "trace (fst (spawn_and_settle w n cmd)) =
       trace w @ [EvWrite (get_log_file n) [], EvPopen cmd (get_log_file n) True True,
                  EvWrite (get_pid_file n) (py_str pid), EvSleep 2]
       @ (if settles t then [] else [EvUnlink (get_pid_file n)])"
    "out (fst (spawn_and_settle w n cmd)) =
       out w @ [if settles t then MsgStarted n pid (get_log_file n)
                else MsgStartFailed n (get_log_file n)]"
    "files (fst (spawn_and_settle w n cmd)) =
       (if settles t then (files w)(get_log_file n \<mapsto> [], get_pid_file n \<mapsto> py_str pid)
        else ((files w)(get_log_file n \<mapsto> []))(get_pid_file n := None))"
    "settles t \<Longrightarrow> alive (fst (spawn_and_settle w n cmd)) pid"
proof -
  let ?lf = "get_log_file n" and ?pf = "get_pid_file n"
  let ?w1 = "write_file ?lf [] w"
  have l: "launch ?w1 cmd = Some (pid, t, d)" using assms by simp
  note p = popen_launched[OF l, where lf = ?lf]
  obtain a where a: "popen ?w1 cmd ?lf = (a, Inr pid)" "a = fst (popen ?w1 cmd ?lf)"
    using p(1) by (cases "popen ?w1 cmd ?lf") simp
  let ?w4 = "time_sleep 2 (write_file ?pf (py_str pid) a)"
  have al: "alive ?w4 pid = settles t" unfolding a(2) by (rule p(5))
  have e: "spawn_and_settle w n cmd =
     (if settles t then (say (MsgStarted n pid ?lf) ?w4, Inr True)
      else (unlink_if_exists ?pf (say (MsgStartFailed n ?lf) ?w4), Inr False))"
    by (simp add: spawn_and_settle_def Let_def a(1) al)
  have fa: "files a = (files w)(?lf \<mapsto> [])" "out a = out w"
    "trace a = trace w @ [EvWrite ?lf [], EvPopen cmd ?lf True True]"
    unfolding a(2) by (simp_all add: p(2,3,4))
  show "snd (spawn_and_settle w n cmd) = Inr (settles t)" by (simp add: e)
  show "trace (fst (spawn_and_settle w n cmd)) =
       trace w @ [EvWrite ?lf [], EvPopen cmd ?lf True True, EvWrite ?pf (py_str pid), EvSleep 2]
       @ (if settles t then [] else [EvUnlink ?pf])"
    by (simp add: e fa)
  show "out (fst (spawn_and_settle w n cmd)) =
       out w @ [if settles t then MsgStarted n pid ?lf else MsgStartFailed n ?lf]"
    by (simp add: e fa)
  show "files (fst (spawn_and_settle w n cmd)) =
       (if settles t then (files w)(?lf \<mapsto> [], ?pf \<mapsto> py_str pid)
        else ((files w)(?lf \<mapsto> []))(?pf := None))"
    by (simp add: e fa)
  show "settles t \<Longrightarrow> alive (fst (spawn_and_settle w n cmd)) pid"
    using al by (simp add: e alive_def)
qed

lemma spawn_and_settle_begins:
  "\<exists>rest. trace (fst (spawn_and_settle w n cmd)) =
     trace w @ EvWrite (get_log_file n) [] # EvPopen cmd (get_log_file n) True True # rest"
proof (cases "launch w cmd")
  case None
  then have "launch (write_file (get_log_file n) [] w) cmd = None" by simp
  note p = popen_failed[OF this, where lf = "get_log_file n"]
  show ?thesis by (simp add: spawn_and_settle_def Let_def p)
next
  case (Some r)
  obtain pid t d where "r = (pid, t, d)" by (cases r) auto
  with Some have "launch w cmd = Some (pid, t, d)" by simp
  from spawn_and_settle_launched(2)[OF this, where n = n] show ?thesis by simp
qed

lemma spawn_and_settle_output:
  "\<exists>m. out (fst (spawn_and_settle w n cmd)) = out w @ [m] \<and> (\<forall>a b. m \<noteq> MsgNoConfig a b)"
proof (cases "launch w cmd")
  case None
  then have "launch (write_file (get_log_file n) [] w) cmd = None" by simp
  note p = popen_failed[OF this, where lf = "get_log_file n"]
  show ?thesis by (simp add: spawn_and_settle_def Let_def p)
next
  case (Some r)
  obtain pid t d where "r = (pid, t, d)" by (cases r) auto
  with Some have "launch w cmd = Some (pid, t, d)" by simp
  from spawn_and_settle_launched(3)[OF this, where n = n] show ?thesis by simp
qed

section \<open>Claims about starting a tunnel that is not running\<close>

lemma spawn_and_settle_returns: "\<exists>b. snd (spawn_and_settle w n cmd) = Inr b"
proof (cases "launch w cmd")
  case None
  then have "launch (write_file (get_log_file n) [] w) cmd = None" by simp
  note p = popen_failed[OF this, where lf = "get_log_file n"]
  have "snd (spawn_and_settle w n cmd) = Inr False"
    by (simp add: spawn_and_settle_def Let_def p)
  then show ?thesis by (rule exI)
next
  case (Some r)
  obtain pid t d where "r = (pid, t, d)" by (cases r) auto
  with Some have "launch w cmd = Some (pid, t, d)" by simp
  from spawn_and_settle_launched(1)[OF this, where n = n] show ?thesis by (rule exI)
qed

lemma launch_worlds_probe:
  "snd (is_tunnel_running quiet_world ''demo'') = Inr (False, None)"
  "snd (is_tunnel_running other_pid_world ''demo'') = Inr (False, None)"
  "snd (is_tunnel_running crashing_world ''demo'') = Inr (False, None)"
  "snd (is_tunnel_running configured_world ''demo'') = Inr (False, None)"
  by (simp_all add: other_pid_world_def crashing_world_def configured_world_def world_eval
      probe_eval)

lemma launch_worlds_launch:
  "launch quiet_world cmd = Some (4242, None, Some 1)"
  "launch other_pid_world cmd = Some (5151, None, Some 1)"
  "launch crashing_world cmd = Some (4242, Some 1, Some 1)"
  by (simp_all add: other_pid_world_def crashing_world_def quiet_world_def)

text \<open>
  Claim C3, as stated, says that a successful start returns the identifier. Two
  successful starts that spawn different identifiers return the same value,
  \<^verbatim>\<open>True\<close>; only the message printed tells them apart.
\<close>

theorem start_returns_flag_not_identifier:
  "snd (start_tunnel quiet_world ''demo'' None) = Inr True
   \<and> last (out (fst (start_tunnel quiet_world ''demo'' None)))
       = MsgStarted ''demo'' 4242 ''/tmp/cloudflared-demo.log''
   \<and> snd (start_tunnel other_pid_world ''demo'' None) = Inr True
   \<and> last (out (fst (start_tunnel other_pid_world ''demo'' None)))
       = MsgStarted ''demo'' 5151 ''/tmp/cloudflared-demo.log''"
proof -
  have s: "settles None" by (simp add: settles_def)
  obtain w1 where p1: "is_tunnel_running quiet_world ''demo'' = (w1, Inr (False, None))"
    using launch_worlds_probe(1) by (cases "is_tunnel_running quiet_world ''demo''") simp
  obtain w2 where p2: "is_tunnel_running other_pid_world ''demo'' = (w2, Inr (False, None))"
    using launch_worlds_probe(2) by (cases "is_tunnel_running other_pid_world ''demo''") simp
  have l1: "launch (fst (resolve_config w1 ''demo'' None)) (start_command w1 ''demo'' None)
      = Some (4242, None, Some 1)"
    using is_tunnel_running_frame(5)[OF p1] by (simp add: launch_worlds_launch)
  have l2: "launch (fst (resolve_config w2 ''demo'' None)) (start_command w2 ''demo'' None)
      = Some (5151, None, Some 1)"
    using is_tunnel_running_frame(5)[OF p2] by (simp add: launch_worlds_launch)
  note q1 = spawn_and_settle_launched[OF l1, where n = "''demo''"]
  note q2 = spawn_and_settle_launched[OF l2, where n = "''demo''"]
  show ?thesis
    unfolding start_tunnel_fresh[OF p1] start_tunnel_fresh[OF p2]
    by (simp add: q1(1,3) q2(1,3) s get_log_file_demo)
qed

text \<open>
  Claim C3, amended. Let the probe report tunnel \<open>n\<close> not running and let the system
  launch the command that \<^verbatim>\<open>start_tunnel\<close> builds, as process \<open>pid\<close> with time to live
  \<open>t\<close>. After the probe, \<^verbatim>\<open>start_tunnel\<close> makes exactly these calls, in this order: it
  opens the log file for writing, which truncates it; it spawns the command with
  standard output on the log file, standard error on standard output and a new
  session; it writes \<open>pid\<close> to the pid file; it sleeps 2 time units; and, only when the
  process is gone by then, it unlinks the pid file. It returns \<^verbatim>\<open>True\<close> exactly when the
  process outlived the settle interval. In that case the last line printed is the
  started message, which carries \<open>pid\<close> and the log file, the pid file holds \<open>pid\<close> and
  the process is alive. Otherwise the last line printed is the failure message, which
  carries the log file, and the pid file does not exist. The value returned is the
  boolean, not the identifier: the identifier is reported in the message.
\<close>

theorem start_spawns_and_settles:
  assumes "snd (is_tunnel_running w n) = Inr (False, x)"
    and "launch w (start_command (fst (is_tunnel_running w n)) n cf) = Some (pid, t, d)"
  shows "snd (start_tunnel w n cf) = Inr (settles t)
       \<and> new_events (fst (is_tunnel_running w n)) (fst (start_tunnel w n cf)) =
           [EvWrite (get_log_file n) [],
            EvPopen (start_command (fst (is_tunnel_running w n)) n cf) (get_log_file n) True True,
            EvWrite (get_pid_file n) (py_str pid), EvSleep 2]
           @ (if settles t then [] else [EvUnlink (get_pid_file n)])
       \<and> (settles t \<longrightarrow>
             last (out (fst (start_tunnel w n cf))) = MsgStarted n pid (get_log_file n)
           \<and> files (fst (start_tunnel w n cf)) (get_pid_file n) = Some (py_str pid)
           \<and> files (fst (start_tunnel w n cf)) (get_log_file n) = Some []
           \<and> alive (fst (start_tunnel w n cf)) pid)
       \<and> (\<not> settles t \<longrightarrow>
             last (out (fst (start_tunnel w n cf))) = MsgStartFailed n (get_log_file n)
           \<and> files (fst (start_tunnel w n cf)) (get_pid_file n) = None)"
proof -
  obtain w1 where pr: "is_tunnel_running w n = (w1, Inr (False, x))"
    using assms(1) by (cases "is_tunnel_running w n") simp
  note f = is_tunnel_running_frame[OF pr]
  let ?w2 = "fst (resolve_config w1 n cf)"
  let ?cmd = "start_command w1 n cf"
  note s = start_tunnel_fresh[OF pr, of cf]
  from assms(2) pr f(5) have l: "launch ?w2 ?cmd = Some (pid, t, d)" by simp
  note q = spawn_and_settle_launched[OF l, where n = n]
  have ev: "new_events w1 (fst (spawn_and_settle ?w2 n ?cmd)) =
      [EvWrite (get_log_file n) [], EvPopen ?cmd (get_log_file n) True True,
       EvWrite (get_pid_file n) (py_str pid), EvSleep 2]
      @ (if settles t then [] else [EvUnlink (get_pid_file n)])"
    by (rule new_events_append) (simp add: q(2))
  have ok: "settles t \<longrightarrow>
             last (out (fst (spawn_and_settle ?w2 n ?cmd))) = MsgStarted n pid (get_log_file n)
           \<and> files (fst (spawn_and_settle ?w2 n ?cmd)) (get_pid_file n) = Some (py_str pid)
           \<and> files (fst (spawn_and_settle ?w2 n ?cmd)) (get_log_file n) = Some []
           \<and> alive (fst (spawn_and_settle ?w2 n ?cmd)) pid"
    using q(5) by (simp add: q(3,4) pid_log_distinct[symmetric])
  have ko: "\<not> settles t \<longrightarrow>
             last (out (fst (spawn_and_settle ?w2 n ?cmd))) = MsgStartFailed n (get_log_file n)
           \<and> files (fst (spawn_and_settle ?w2 n ?cmd)) (get_pid_file n) = None"
    by (simp add: q(3,4))
  from q(1) ev ok ko show ?thesis unfolding s pr by simp
qed

theorem start_spawns_and_settles_witness:
  "snd (is_tunnel_running quiet_world ''demo'') = Inr (False, None)
   \<and> launch quiet_world (start_command (fst (is_tunnel_running quiet_world ''demo'')) ''demo'' None)
       = Some (4242, None, Some 1)
   \<and> snd (start_tunnel quiet_world ''demo'' None) = Inr True
   \<and> last (out (fst (start_tunnel quiet_world ''demo'' None)))
       = MsgStarted ''demo'' 4242 ''/tmp/cloudflared-demo.log''
   \<and> files (fst (start_tunnel quiet_world ''demo'' None)) ''/tmp/cloudflared-demo.pid''
       = Some (py_str 4242)
   \<and> alive (fst (start_tunnel quiet_world ''demo'' None)) 4242
   \<and> snd (is_tunnel_running crashing_world ''demo'') = Inr (False, None)
   \<and> launch crashing_world
        (start_command (fst (is_tunnel_running crashing_world ''demo'')) ''demo'' None)
       = Some (4242, Some 1, Some 1)
   \<and> snd (start_tunnel crashing_world ''demo'' None) = Inr False
   \<and> last (out (fst (start_tunnel crashing_world ''demo'' None)))
       = MsgStartFailed ''demo'' ''/tmp/cloudflared-demo.log''
   \<and> files (fst (start_tunnel crashing_world ''demo'' None)) ''/tmp/cloudflared-demo.pid'' = None"
proof -
  note a = start_spawns_and_settles[OF launch_worlds_probe(1) launch_worlds_launch(1),
      where cf = None]
  note b = start_spawns_and_settles[OF launch_worlds_probe(3) launch_worlds_launch(3),
      where cf = None]
  have s: "settles None" "\<not> settles (Some 1)" by (simp_all add: settles_def)
  from a b s launch_worlds_probe launch_worlds_launch show ?thesis
    by (simp add: get_pid_file_demo get_log_file_demo)
qed

text \<open>
  Claim C10. Let the probe report tunnel \<open>n\<close> not running and let \<open>c\<close> be an explicitly
  given config path that does not exist. Then the command built is
  \<^verbatim>\<open>cloudflared tunnel run <n>\<close>, without \<^verbatim>\<open>--config\<close>, whether or not the name-derived
  default config exists; \<^verbatim>\<open>start_tunnel\<close> opens the log file and spawns exactly that
  command; it raises nothing; and the one line it prints is not the no-config
  warning.
\<close>

theorem start_missing_explicit_config:
  assumes "snd (is_tunnel_running w n) = Inr (False, x)" and "\<not> path_exists w c"
  shows "start_command (fst (is_tunnel_running w n)) n (Some c) = [''cloudflared'', ''tunnel'', ''run'', n]
       \<and> (\<exists>rest. new_events (fst (is_tunnel_running w n)) (fst (start_tunnel w n (Some c))) =
             EvWrite (get_log_file n) []
             # EvPopen [''cloudflared'', ''tunnel'', ''run'', n] (get_log_file n) True True # rest)
       \<and> (\<exists>m. new_output w (fst (start_tunnel w n (Some c))) = [m]
              \<and> (\<forall>a b. m \<noteq> MsgNoConfig a b))
       \<and> (\<exists>b. snd (start_tunnel w n (Some c)) = Inr b)"
proof -
  obtain w1 where pr: "is_tunnel_running w n = (w1, Inr (False, x))"
    using assms(1) by (cases "is_tunnel_running w n") simp
  note f = is_tunnel_running_frame[OF pr]
  from assms(2) have c: "c \<noteq> []" "files w c = None" by (simp_all add: path_exists_def)
  from f(6) c(2) have "files w1 c = None" by auto
  with c(1) have ne: "\<not> path_exists w1 c" by (simp add: path_exists_def)
  from c(1) have r: "resolve_config w1 n (Some c) = (w1, Some c)"
    by (simp add: resolve_config_def falsy_def)
  have cmd: "start_command w1 n (Some c) = [''cloudflared'', ''tunnel'', ''run'', n]"
    by (simp add: start_command_def r build_cmd_def ne)
  note s = start_tunnel_fresh[OF pr, of "Some c"]
  have s': "start_tunnel w n (Some c) = spawn_and_settle w1 n [''cloudflared'', ''tunnel'', ''run'', n]"
    unfolding s cmd r by simp
  let ?S = "spawn_and_settle w1 n [''cloudflared'', ''tunnel'', ''run'', n]"
  from spawn_and_settle_begins[of w1 n "[''cloudflared'', ''tunnel'', ''run'', n]"]
  obtain rest where "trace (fst ?S) = trace w1 @ EvWrite (get_log_file n) []
     # EvPopen [''cloudflared'', ''tunnel'', ''run'', n] (get_log_file n) True True # rest"
    by blast
  then have "new_events w1 (fst ?S) = EvWrite (get_log_file n) []
     # EvPopen [''cloudflared'', ''tunnel'', ''run'', n] (get_log_file n) True True # rest"
    by (rule new_events_append)
  then have 2: "\<exists>rest. new_events w1 (fst ?S) = EvWrite (get_log_file n) []
     # EvPopen [''cloudflared'', ''tunnel'', ''run'', n] (get_log_file n) True True # rest"
    by blast
  from spawn_and_settle_output[of w1 n "[''cloudflared'', ''tunnel'', ''run'', n]"]
  obtain m where m: "out (fst ?S) = out w1 @ [m]" "\<forall>a b. m \<noteq> MsgNoConfig a b" by blast
  from m(1) f(2) have "new_output w (fst ?S) = [m]" by (simp add: new_output_def)
  with m(2) have 3: "\<exists>m. new_output w (fst ?S) = [m] \<and> (\<forall>a b. m \<noteq> MsgNoConfig a b)"
    by blast
  have 4: "\<exists>b. snd ?S = Inr b" by (rule spawn_and_settle_returns)
  from cmd 2 3 4 show ?thesis unfolding s' pr by simp
qed

theorem start_missing_explicit_config_witness:
  "snd (is_tunnel_running configured_world ''demo'') = Inr (False, None)
   \<and> \<not> path_exists configured_world ''/nonexistent.yml''
   \<and> path_exists configured_world (path_join (config_dir configured_world) ''demo.yml'')
   \<and> start_command (fst (is_tunnel_running configured_world ''demo'')) ''demo''
        (Some ''/nonexistent.yml'') = [''cloudflared'', ''tunnel'', ''run'', ''demo'']"
proof -
  have h: "\<not> path_exists configured_world ''/nonexistent.yml''"
    by (simp add: path_exists_def configured_world_def quiet_world_def)
  have d: "path_exists configured_world (path_join (config_dir configured_world) ''demo.yml'')"
    by (simp add: path_exists_def configured_world_def quiet_world_def config_dir_def
        path_join_def)
  from start_missing_explicit_config[OF launch_worlds_probe(4) h] h d launch_worlds_probe(4)
  show ?thesis by simp
qed

section \<open>Claims about \<^verbatim>\<open>restart_tunnel\<close>\<close>

lemma restart_not_running:
  assumes "is_tunnel_running (say (MsgRestarting n) w) n = (w1, Inr (False, x))"
  shows "restart_tunnel w n cf = start_tunnel w1 n cf"
  using assms by (simp add: restart_tunnel_def)

lemma restart_running:
  assumes "is_tunnel_running (say (MsgRestarting n) w) n = (w1, Inr (True, x))"
    and "stop_tunnel w1 n = (w2, Inr stopped)"
  shows "restart_tunnel w n cf =
     (if stopped then start_tunnel (time_sleep 2 w2) n cf else (w2, Inr False))"
  using assms by (simp add: restart_tunnel_def)

lemma stop_tunnel_succeeds:
  assumes "snd (is_tunnel_running W n) = Inr (True, Some p)" and "kill_result W p = None"
  shows "snd (stop_tunnel W n) = Inr True"
proof -
  obtain w1 where pr: "is_tunnel_running W n = (w1, Inr (True, Some p))"
    using assms(1) by (cases "is_tunnel_running W n") simp
  have "kill_result w1 p = None"
    using kill_result_cong[OF is_tunnel_running_frame(1)[OF pr], of p] assms(2) by simp
  from terminate_delivered[OF this, of n] show ?thesis
    unfolding stop_tunnel_running[OF pr] by simp
qed

lemma stop_tunnel_refused:
  assumes "snd (is_tunnel_running W n) = Inr (True, Some p)" and "kill_result W p = Some e"
    and "e \<noteq> ProcessLookupError"
  shows "snd (stop_tunnel W n) = Inr False"
proof -
  obtain w1 where pr: "is_tunnel_running W n = (w1, Inr (True, Some p))"
    using assms(1) by (cases "is_tunnel_running W n") simp
  have "kill_result w1 p = Some e"
    using kill_result_cong[OF is_tunnel_running_frame(1)[OF pr], of p] assms(2) by simp
  from terminate_error[OF this assms(3), of n] show ?thesis
    unfolding stop_tunnel_running[OF pr] by simp
qed

lemma restart_worlds_probe:
  "snd (is_tunnel_running (say (MsgRestarting ''demo'') quiet_world) ''demo'')
     = Inr (False, None)"
  "snd (is_tunnel_running (say (MsgRestarting ''demo'') foreign_world) ''demo'')
     = Inr (True, Some 42)"
  "snd (is_tunnel_running (say (MsgRestarting ''demo'') running_world) ''demo'')
     = Inr (True, Some 42)"
  by (simp_all add: say_def foreign_world_def running_world_def world_eval probe_eval)

lemma restart_worlds_second_probe:
  "snd (is_tunnel_running
     (fst (is_tunnel_running (say (MsgRestarting ''demo'') foreign_world) ''demo'')) ''demo'')
     = Inr (True, Some 42)"
  "snd (is_tunnel_running
     (fst (is_tunnel_running (say (MsgRestarting ''demo'') running_world) ''demo'')) ''demo'')
     = Inr (True, Some 42)"
  "kill_result (fst (is_tunnel_running (say (MsgRestarting ''demo'') foreign_world) ''demo'')) 42
     = Some PermissionError"
  "kill_result (fst (is_tunnel_running (say (MsgRestarting ''demo'') running_world) ''demo'')) 42
     = None"
  by (simp_all add: say_def foreign_world_def running_world_def world_eval probe_eval)

text \<open>
  Claim C8. \<^verbatim>\<open>restart_tunnel\<close> prints that it restarts and probes. If the probe reports
  not running, it is a plain \<^verbatim>\<open>start_tunnel\<close> in the world the probe left, and the
  system calls made until then are the probe's alone, so there is no pause. If the
  probe reports running, \<^verbatim>\<open>stop_tunnel\<close> is called; when it returns \<^verbatim>\<open>False\<close>,
  \<^verbatim>\<open>restart_tunnel\<close> returns \<^verbatim>\<open>False\<close> in the world the stop left, so nothing is
  started; when it returns \<^verbatim>\<open>True\<close>, \<^verbatim>\<open>restart_tunnel\<close> sleeps 2 time units and then is
  \<^verbatim>\<open>start_tunnel\<close>.
\<close>

theorem restart_stop_pause_start:
  "(\<forall>x. snd (is_tunnel_running (say (MsgRestarting n) w) n) = Inr (False, x) \<longrightarrow>
        restart_tunnel w n cf
          = start_tunnel (fst (is_tunnel_running (say (MsgRestarting n) w) n)) n cf
      \<and> (\<forall>e\<in>set (new_events w (fst (is_tunnel_running (say (MsgRestarting n) w) n))).
            probe_event (get_pid_file n) e))
   \<and> (\<forall>x. snd (is_tunnel_running (say (MsgRestarting n) w) n) = Inr (True, x)
          \<and> snd (stop_tunnel (fst (is_tunnel_running (say (MsgRestarting n) w) n)) n) = Inr False
        \<longrightarrow> restart_tunnel w n cf
              = (fst (stop_tunnel (fst (is_tunnel_running (say (MsgRestarting n) w) n)) n),
                 Inr False))
   \<and> (\<forall>x. snd (is_tunnel_running (say (MsgRestarting n) w) n) = Inr (True, x)
          \<and> snd (stop_tunnel (fst (is_tunnel_running (say (MsgRestarting n) w) n)) n) = Inr True
        \<longrightarrow> restart_tunnel w n cf
              = start_tunnel
                  (time_sleep 2
                     (fst (stop_tunnel (fst (is_tunnel_running (say (MsgRestarting n) w) n)) n)))
                  n cf
          \<and> new_events
               (fst (stop_tunnel (fst (is_tunnel_running (say (MsgRestarting n) w) n)) n))
               (time_sleep 2
                  (fst (stop_tunnel (fst (is_tunnel_running (say (MsgRestarting n) w) n)) n)))
              = [EvSleep 2])"
proof -
  let ?P = "is_tunnel_running (say (MsgRestarting n) w) n"
  let ?S = "stop_tunnel (fst ?P) n"
  have A: "\<forall>x. snd ?P = Inr (False, x) \<longrightarrow>
        restart_tunnel w n cf = start_tunnel (fst ?P) n cf
      \<and> (\<forall>e\<in>set (new_events w (fst ?P)). probe_event (get_pid_file n) e)"
  proof (intro allI impI)
    fix x assume a: "snd ?P = Inr (False, x)"
    then have p: "?P = (fst ?P, Inr (False, x))" by (simp add: prod_eq_iff)
    from is_tunnel_running_frame(7)[OF p] obtain es where
      es: "trace (fst ?P) = trace w @ es" "\<forall>e\<in>set es. probe_event (get_pid_file n) e"
      by auto
    from es(1) have "new_events w (fst ?P) = es" by (rule new_events_append)
    with es(2) restart_not_running[OF p, of cf]
    show "restart_tunnel w n cf = start_tunnel (fst ?P) n cf
      \<and> (\<forall>e\<in>set (new_events w (fst ?P)). probe_event (get_pid_file n) e)" by simp
  qed
  have B: "\<forall>x. snd ?P = Inr (True, x) \<and> snd ?S = Inr False
        \<longrightarrow> restart_tunnel w n cf = (fst ?S, Inr False)"
  proof (intro allI impI, elim conjE)
    fix x assume a: "snd ?P = Inr (True, x)" "snd ?S = Inr False"
    then have p: "?P = (fst ?P, Inr (True, x))" and s: "?S = (fst ?S, Inr False)"
      by (simp_all add: prod_eq_iff)
    from restart_running[OF p s, of cf] show "restart_tunnel w n cf = (fst ?S, Inr False)"
      by simp
  qed
  have C: "\<forall>x. snd ?P = Inr (True, x) \<and> snd ?S = Inr True
        \<longrightarrow> restart_tunnel w n cf = start_tunnel (time_sleep 2 (fst ?S)) n cf
          \<and> new_events (fst ?S) (time_sleep 2 (fst ?S)) = [EvSleep 2]"
  proof (intro allI impI, elim conjE)
    fix x assume a: "snd ?P = Inr (True, x)" "snd ?S = Inr True"
    then have p: "?P = (fst ?P, Inr (True, x))" and s: "?S = (fst ?S, Inr True)"
      by (simp_all add: prod_eq_iff)
    have "new_events (fst ?S) (time_sleep 2 (fst ?S)) = [EvSleep 2]"
      by (rule new_events_append) simp
    with restart_running[OF p s, of cf]
    show "restart_tunnel w n cf = start_tunnel (time_sleep 2 (fst ?S)) n cf
          \<and> new_events (fst ?S) (time_sleep 2 (fst ?S)) = [EvSleep 2]" by simp
  qed
  from A B C show ?thesis by (intro conjI)
qed

theorem restart_stop_pause_start_witness:
  "snd (is_tunnel_running (say (MsgRestarting ''demo'') quiet_world) ''demo'') = Inr (False, None)
   \<and> restart_tunnel quiet_world ''demo'' None
       = start_tunnel (fst (is_tunnel_running (say (MsgRestarting ''demo'') quiet_world) ''demo''))
           ''demo'' None
   \<and> snd (is_tunnel_running (say (MsgRestarting ''demo'') foreign_world) ''demo'')
       = Inr (True, Some 42)
   \<and> snd (stop_tunnel
        (fst (is_tunnel_running (say (MsgRestarting ''demo'') foreign_world) ''demo'')) ''demo'')
       = Inr False
   \<and> snd (restart_tunnel foreign_world ''demo'' None) = Inr False
   \<and> snd (is_tunnel_running (say (MsgRestarting ''demo'') running_world) ''demo'')
       = Inr (True, Some 42)
   \<and> snd (stop_tunnel
        (fst (is_tunnel_running (say (MsgRestarting ''demo'') running_world) ''demo'')) ''demo'')
       = Inr True
   \<and> restart_tunnel running_world ''demo'' None
       = start_tunnel
           (time_sleep 2
              (fst (stop_tunnel
                 (fst (is_tunnel_running (say (MsgRestarting ''demo'') running_world) ''demo''))
                 ''demo'')))
           ''demo'' None"
proof -
  note sf = stop_tunnel_refused[OF restart_worlds_second_probe(1) restart_worlds_second_probe(3)]
  note ss = stop_tunnel_succeeds[OF restart_worlds_second_probe(2) restart_worlds_second_probe(4)]
  have f: "snd (stop_tunnel
        (fst (is_tunnel_running (say (MsgRestarting ''demo'') foreign_world) ''demo'')) ''demo'')
       = Inr False" by (rule sf) simp
  from restart_stop_pause_start[of "''demo''" quiet_world None] restart_worlds_probe(1)
  have 1: "restart_tunnel quiet_world ''demo'' None
       = start_tunnel (fst (is_tunnel_running (say (MsgRestarting ''demo'') quiet_world) ''demo''))
           ''demo'' None" by blast
  from restart_stop_pause_start[of "''demo''" foreign_world None] restart_worlds_probe(2) f
  have 2: "restart_tunnel foreign_world ''demo'' None
       = (fst (stop_tunnel
            (fst (is_tunnel_running (say (MsgRestarting ''demo'') foreign_world) ''demo''))
            ''demo''), Inr False)" by blast
  from restart_stop_pause_start[of "''demo''" running_world None] restart_worlds_probe(3) ss
  have 3: "restart_tunnel running_world ''demo'' None
       = start_tunnel
           (time_sleep 2
              (fst (stop_tunnel
                 (fst (is_tunnel_running (say (MsgRestarting ''demo'') running_world) ''demo''))
                 ''demo'')))
           ''demo'' None" by blast
  from 2 have r2: "snd (restart_tunnel foreign_world ''demo'' None) = Inr False" by simp
  from 1 r2 3 f ss restart_worlds_probe show ?thesis by (intro conjI)
qed

end
